theory Spec2Isabelle
  imports Complex_Main "HOL-Library.Signed_Division"
begin

section \<open>The Qt library as a parameter\<close>

text \<open>
  \<open>documentstatistics.cpp\<close> classifies characters with \<open>QChar::isLetterOrNumber\<close> and
  \<open>QChar::isSpace\<close> and finds sentence boundaries with a \<open>QTextBoundaryFinder\<close>. These
  belong to Qt, not to ghostwriter, so the model takes them as a parameter: a record of
  the three functions, over any character type \<open>'c\<close>. A \<open>QString\<close> is a list of
  characters.

  \<open>toNextBoundary Q text pos\<close> is the value returned by
  \<open>QTextBoundaryFinder::toNextBoundary()\<close> of a sentence finder over \<open>text\<close> whose
  current position is \<open>pos\<close>; the finder's new position is the value returned.
\<close>

record 'c Qt =
  isLetterOrNumber :: "'c \<Rightarrow> bool"
  isSpace :: "'c \<Rightarrow> bool"
  toNextBoundary :: "'c list \<Rightarrow> int \<Rightarrow> int"

section \<open>countWords\<close>

text \<open>
  The local variables and the three reference parameters of
  \<open>DocumentStatisticsPrivate::countWords\<close>. C++ \<open>int\<close> is modelled as \<open>int\<close>:
  by the loop invariant \<open>cwInv\<close> below no counter leaves the range
  \<open>0 .. text.length()\<close>, so 32-bit arithmetic never wraps.
\<close>

record cwState =
  inWord :: bool
  separatorCount :: int
  wordLen :: int
  words :: int
  lixLongWords :: int
  alphaNumericCharacters :: int

definition cwInit :: cwState where
  "cwInit = \<lparr>inWord = False, separatorCount = 0, wordLen = 0,
             words = 0, lixLongWords = 0, alphaNumericCharacters = 0\<rparr>"

text \<open>One iteration of the \<open>for\<close> loop, on the character \<open>c = text[i]\<close>.\<close>

definition cwChar :: "('c, 'x) Qt_scheme \<Rightarrow> cwState \<Rightarrow> 'c \<Rightarrow> cwState" where
  "cwChar Q s c =
    (if isLetterOrNumber Q c then
       s\<lparr>inWord := True, separatorCount := 0, wordLen := wordLen s + 1,
         alphaNumericCharacters := alphaNumericCharacters s + 1\<rparr>
     else if isSpace Q c \<and> inWord s then
       (let wl = (if separatorCount s > 0 then wordLen s - 1 else wordLen s);
            an = (if separatorCount s > 0 then alphaNumericCharacters s - 1
                  else alphaNumericCharacters s)
        in s\<lparr>inWord := False, words := words s + 1, separatorCount := 0,
              lixLongWords := (if wl > 6 then lixLongWords s + 1 else lixLongWords s),
              wordLen := 0, alphaNumericCharacters := an\<rparr>)
     else
       (let sc = separatorCount s + 1 in
        if inWord s then
          if sc > 1 then
            (let wl = wordLen s - 1 in
             s\<lparr>separatorCount := 0, inWord := False, words := words s + 1,
               alphaNumericCharacters := alphaNumericCharacters s - 1,
               lixLongWords := (if wl > 6 then lixLongWords s + 1 else lixLongWords s),
               wordLen := 0\<rparr>)
          else
            s\<lparr>separatorCount := sc, wordLen := wordLen s + 1,
              alphaNumericCharacters := alphaNumericCharacters s + 1\<rparr>
        else s\<lparr>separatorCount := sc\<rparr>))"

text \<open>The code after the loop: the word still open at the end of the text is closed.\<close>

definition cwFinish :: "cwState \<Rightarrow> cwState" where
  "cwFinish s =
    (if inWord s then
       (let wl = (if separatorCount s > 0 then wordLen s - 1 else wordLen s);
            an = (if separatorCount s > 0 then alphaNumericCharacters s - 1
                  else alphaNumericCharacters s)
        in s\<lparr>words := words s + 1, wordLen := wl, alphaNumericCharacters := an,
              lixLongWords := (if wl > 6 then lixLongWords s + 1 else lixLongWords s)\<rparr>)
     else s)"

text \<open>
  \<open>countWords\<close> returns the final values of its three reference parameters
  \<open>(words, lixLongWords, alphaNumericCharacters)\<close>.
\<close>

definition countWords :: "('c, 'x) Qt_scheme \<Rightarrow> 'c list \<Rightarrow> int \<times> int \<times> int" where
  "countWords Q text =
    (let s = cwFinish (foldl (cwChar Q) cwInit text)
     in (words s, lixLongWords s, alphaNumericCharacters s))"

section \<open>countSentences\<close>

text \<open>\<open>QString::trimmed\<close>: the text without its leading and trailing white space.\<close>

definition trimmed :: "('c, 'x) Qt_scheme \<Rightarrow> 'c list \<Rightarrow> 'c list" where
  "trimmed Q str = rev (dropWhile (isSpace Q) (rev (dropWhile (isSpace Q) str)))"

text \<open>
  The \<open>while (nextSentencePos >= 0)\<close> loop of \<open>countSentences\<close>. Whether it ends
  depends on the boundary finder, so the loop is a partial function and \<open>None\<close> stands
  for a run without a result. \<open>trimmedText[oldPos]\<close> is only read when the step has
  length 1; a read outside the text has no defined result and is \<open>None\<close> as well.
\<close>

partial_function (option) sentenceLoop ::
  "('c, 'x) Qt_scheme \<Rightarrow> 'c list \<Rightarrow> int \<Rightarrow> int \<Rightarrow> int option" where
  "sentenceLoop Q trimmedText nextSentencePos count =
    (if nextSentencePos \<ge> 0 then
       (let oldPos = nextSentencePos;
            nextPos = toNextBoundary Q trimmedText oldPos
        in if nextPos - oldPos > 1 then sentenceLoop Q trimmedText nextPos (count + 1)
           else if nextPos - oldPos > 0 then
             (if oldPos < int (length trimmedText) then
                (if \<not> isSpace Q (trimmedText ! nat oldPos)
                 then sentenceLoop Q trimmedText nextPos (count + 1)
                 else sentenceLoop Q trimmedText nextPos count)
              else None)
           else sentenceLoop Q trimmedText nextPos count)
     else Some count)"

definition countSentences :: "('c, 'x) Qt_scheme \<Rightarrow> 'c list \<Rightarrow> int option" where
  "countSentences Q str =
    (let trimmedText = trimmed Q str
     in if length trimmedText > 0 then sentenceLoop Q trimmedText 0 0 else Some 0)"

text \<open>
  What the loop relies on, as \<open>QTextBoundaryFinder::toNextBoundary\<close> is documented:
  from a position in the text it moves forward to a boundary no further than the end
  of the text, or it returns \<open>-1\<close>.
\<close>

definition boundaryContract :: "('c, 'x) Qt_scheme \<Rightarrow> bool" where
  "boundaryContract Q \<longleftrightarrow>
    (\<forall>str pos. 0 \<le> pos \<longrightarrow>
       toNextBoundary Q str pos = - 1 \<or>
       (pos < toNextBoundary Q str pos \<and> toNextBoundary Q str pos \<le> int (length str)))"

section \<open>Floating point\<close>

text \<open>
  \<open>qreal\<close> is \<open>double\<close> and \<open>float\<close> is single precision. A floating-point value is
  modelled by a mantissa and an exponent, \<open>FP m e\<close> standing for \<open>m * 2 ^ e\<close>, and
  every operation computes the exact result and rounds it to the nearest value with
  \<open>p\<close> significant bits, ties to even (IEEE 754 binary64 with \<open>p = 53\<close>, binary32 with
  \<open>p = 24\<close>). The exponent is not bounded: the quotients, products and sums of the
  readability formulas over 32-bit integers stay far from the overflow and underflow
  thresholds of both formats.
\<close>

datatype fp = FP int int

definition fpValue :: "fp \<Rightarrow> real" where
  "fpValue x = (case x of FP m e \<Rightarrow> of_int m * 2 powr (of_int e))"

fun bitLength :: "nat \<Rightarrow> nat" where
  "bitLength n = (if n = 0 then 0 else Suc (bitLength (n div 2)))"

declare bitLength.simps [simp del]

text \<open>The integer nearest to \<open>n / d\<close> for \<open>d > 0\<close>, the even one of two equally near.\<close>

definition roundHalfEven :: "int \<Rightarrow> int \<Rightarrow> int" where
  "roundHalfEven n d =
    (let q = n div d; r = n mod d
     in if 2 * r < d then q else if d < 2 * r then q + 1 else if even q then q else q + 1)"

text \<open>The fraction \<open>n / d\<close> divided by \<open>2 ^ e\<close>, as a fraction again.\<close>

definition scaleBy :: "int \<Rightarrow> int \<Rightarrow> int \<Rightarrow> int \<times> int" where
  "scaleBy n d e = (if 0 \<le> e then (n, d * 2 ^ nat e) else (n * 2 ^ nat (- e), d))"

text \<open>The \<open>k\<close> with \<open>2 ^ k \<le> n / d < 2 ^ (k + 1)\<close>, for \<open>n > 0\<close> and \<open>d > 0\<close>.\<close>

definition floorLog2 :: "int \<Rightarrow> int \<Rightarrow> int" where
  "floorLog2 n d =
    (let k = int (bitLength (nat n)) - int (bitLength (nat d));
         (n', d') = scaleBy n d k
     in if d' \<le> n' then k else k - 1)"

text \<open>\<open>n / d\<close> rounded to \<open>p\<close> significant bits, for \<open>d > 0\<close>.\<close>

definition roundTo :: "nat \<Rightarrow> int \<Rightarrow> int \<Rightarrow> fp" where
  "roundTo p n d =
    (if n = 0 then FP 0 0
     else let e = floorLog2 \<bar>n\<bar> d - (int p - 1);
              (n', d') = scaleBy n d e
          in FP (roundHalfEven n' d') e)"

text \<open>
  Division is only reached with a divisor that was tested to be positive; on a zero
  divisor this definition returns zero.
\<close>

definition fpDiv :: "nat \<Rightarrow> fp \<Rightarrow> fp \<Rightarrow> fp" where
  "fpDiv p x y = (case x of FP m1 e1 \<Rightarrow> case y of FP m2 e2 \<Rightarrow>
     (case roundTo p (sgn m2 * m1) \<bar>m2\<bar> of FP m e \<Rightarrow> FP m (e + e1 - e2)))"

definition fpMul :: "nat \<Rightarrow> fp \<Rightarrow> fp \<Rightarrow> fp" where
  "fpMul p x y = (case x of FP m1 e1 \<Rightarrow> case y of FP m2 e2 \<Rightarrow>
     (case roundTo p (m1 * m2) 1 of FP m e \<Rightarrow> FP m (e + e1 + e2)))"

definition fpAdd :: "nat \<Rightarrow> fp \<Rightarrow> fp \<Rightarrow> fp" where
  "fpAdd p x y = (case x of FP m1 e1 \<Rightarrow> case y of FP m2 e2 \<Rightarrow>
     (let e0 = min e1 e2
      in case roundTo p (m1 * 2 ^ nat (e1 - e0) + m2 * 2 ^ nat (e2 - e0)) 1 of
           FP m e \<Rightarrow> FP m (e + e0)))"

definition fpSub :: "nat \<Rightarrow> fp \<Rightarrow> fp \<Rightarrow> fp" where
  "fpSub p x y = (case y of FP m2 e2 \<Rightarrow> fpAdd p x (FP (- m2) e2))"

text \<open>The conversions \<open>(qreal) i\<close> and \<open>(float) i\<close> of an \<open>int\<close>, and a decimal literal.\<close>

definition toDouble :: "int \<Rightarrow> fp" where
  "toDouble i = roundTo 53 i 1"

definition toFloat :: "int \<Rightarrow> fp" where
  "toFloat i = roundTo 24 i 1"

definition doubleLiteral :: "int \<Rightarrow> int \<Rightarrow> fp" where
  "doubleLiteral n d = roundTo 53 n d"

text \<open>
  \<open>qCeil\<close> is \<open>int(std::ceil(v))\<close>: the least integer not below the value. The
  conversion to \<open>int\<close> is not defined in C++ beyond 32 bits; the model keeps the
  exact integer.
\<close>

definition qCeil :: "fp \<Rightarrow> int" where
  "qCeil x = (case x of FP m e \<Rightarrow>
     if 0 \<le> e then m * 2 ^ nat e else - ((- m) div 2 ^ nat (- e)))"

section \<open>The readability calculators\<close>

text \<open>C++ integer division truncates towards zero: \<open>sdiv\<close>.\<close>

definition calculatePageCount :: "int \<Rightarrow> int" where
  "calculatePageCount wds = wds sdiv 250"

definition calculateReadingTime :: "int \<Rightarrow> int" where
  "calculateReadingTime wds = wds sdiv 270"

text \<open>
  The floating-point expression of \<open>calculateCLI\<close>, evaluated from left to right; the
  characters per word are a single-precision quotient.
\<close>

definition cliExpression :: "int \<Rightarrow> int \<Rightarrow> int \<Rightarrow> fp" where
  "cliExpression characters wds sentences =
    fpSub 53
      (fpSub 53
        (fpMul 53 (doubleLiteral 588 100) (fpDiv 24 (toFloat characters) (toFloat wds)))
        (fpMul 53 (doubleLiteral 296 10) (fpDiv 53 (toDouble sentences) (toDouble wds))))
      (doubleLiteral 158 10)"

definition calculateCLI :: "int \<Rightarrow> int \<Rightarrow> int \<Rightarrow> int" where
  "calculateCLI characters wds sentences =
    (if sentences > 0 \<and> wds > 0 then
       (let cli = qCeil (cliExpression characters wds sentences)
        in if cli < 0 then 0 else cli)
     else 0)"

text \<open>The floating-point expression of \<open>calculateLIX\<close>.\<close>

definition lixExpression :: "int \<Rightarrow> int \<Rightarrow> int \<Rightarrow> fp" where
  "lixExpression totalWords longWords sentences =
    fpAdd 53
      (fpDiv 53 (toDouble totalWords) (toDouble sentences))
      (fpMul 53 (fpDiv 53 (toDouble longWords) (toDouble totalWords)) (doubleLiteral 100 1))"

definition calculateLIX :: "int \<Rightarrow> int \<Rightarrow> int \<Rightarrow> int" where
  "calculateLIX totalWords longWords sentences =
    (if totalWords > 0 \<and> sentences > 0 then qCeil (lixExpression totalWords longWords sentences)
     else 0)"

definition calculateComplexWords :: "int \<Rightarrow> int \<Rightarrow> int" where
  "calculateComplexWords totalWords longWords =
    (if totalWords > 0 then
       qCeil (fpMul 53 (fpDiv 53 (toDouble longWords) (toDouble totalWords)) (doubleLiteral 100 1))
     else 0)"

section \<open>The document\<close>

text \<open>
  The per-paragraph cache entry: the four fields of \<open>TextBlockData\<close> that
  \<open>updateBlockStatistics\<close> writes.
\<close>

record TextBlockData =
  bd_wordCount :: int
  bd_lixLongWordCount :: int
  bd_alphaNumericCharacterCount :: int
  bd_sentenceCount :: int

text \<open>
  Modelled from the spec: the constructor of \<open>TextBlockData\<close>, which is not in the
  source file; "creation zero-initializes". \<open>updateBlockStatistics\<close> writes every field
  before it is read.
\<close>

definition newTextBlockData :: TextBlockData where
  "newTextBlockData = \<lparr>bd_wordCount = 0, bd_lixLongWordCount = 0,
     bd_alphaNumericCharacterCount = 0, bd_sentenceCount = 0\<rparr>"

text \<open>
  Modelled from the spec: the document collaborator (\<open>MarkdownDocument\<close>, a
  \<open>QTextDocument\<close>), which is not in the source file: forward iteration over the
  paragraphs, the text of a paragraph, its cache slot, and the total character length.
  A document is the list of its paragraphs (blocks), each with its text and its user
  data slot (\<open>None\<close> for \<open>nullptr\<close>). A block occupies the length of its text plus one
  position for the paragraph separator, so a document of \<open>n\<close> characters in one
  paragraph has the character count \<open>n + 1\<close>.
\<close>

record 'c TextBlock =
  blockText :: "'c list"
  userData :: "TextBlockData option"

type_synonym 'c MarkdownDocument = "'c TextBlock list"

definition blockLength :: "'c TextBlock \<Rightarrow> int" where
  "blockLength b = int (length (blockText b)) + 1"

definition documentCharacterCount :: "'c MarkdownDocument \<Rightarrow> int" where
  "documentCharacterCount doc = sum_list (map blockLength doc)"

text \<open>
  A \<open>QTextBlock\<close> value is a handle: \<open>Block i\<close> is paragraph \<open>i\<close> of the document,
  \<open>EndBlock\<close> the invalid block of the document (what \<open>findBlock\<close> returns for a position
  outside the text, and \<open>next()\<close> after the last paragraph), \<open>NullBlock\<close> the
  default-constructed block (what \<open>next()\<close> returns on an invalid block). The three
  are different under \<open>operator!=\<close>.
\<close>

datatype QTextBlock = Block nat | EndBlock | NullBlock

definition isValid :: "'c MarkdownDocument \<Rightarrow> QTextBlock \<Rightarrow> bool" where
  "isValid doc b = (case b of Block i \<Rightarrow> i < length doc | _ \<Rightarrow> False)"

definition firstBlock :: "'c MarkdownDocument \<Rightarrow> QTextBlock" where
  "firstBlock doc = (if doc = [] then EndBlock else Block 0)"

definition lastBlock :: "'c MarkdownDocument \<Rightarrow> QTextBlock" where
  "lastBlock doc = (if doc = [] then EndBlock else Block (length doc - 1))"

definition nextBlock :: "'c MarkdownDocument \<Rightarrow> QTextBlock \<Rightarrow> QTextBlock" where
  "nextBlock doc b =
    (case b of
       Block i \<Rightarrow> if i < length doc then (if Suc i < length doc then Block (Suc i) else EndBlock)
                  else NullBlock
     | _ \<Rightarrow> NullBlock)"

definition textOf :: "'c MarkdownDocument \<Rightarrow> QTextBlock \<Rightarrow> 'c list" where
  "textOf doc b = (case b of Block i \<Rightarrow> if i < length doc then blockText (doc ! i) else [] | _ \<Rightarrow> [])"

definition userDataOf :: "'c MarkdownDocument \<Rightarrow> QTextBlock \<Rightarrow> TextBlockData option" where
  "userDataOf doc b =
    (case b of Block i \<Rightarrow> if i < length doc then userData (doc ! i) else None | _ \<Rightarrow> None)"

text \<open>\<open>setUserData\<close>, and a write through the pointer it stored; nothing on an invalid block.\<close>

definition setUserData :: "'c MarkdownDocument \<Rightarrow> QTextBlock \<Rightarrow> TextBlockData \<Rightarrow> 'c MarkdownDocument" where
  "setUserData doc b bd =
    (case b of
       Block i \<Rightarrow> if i < length doc then doc[i := (doc ! i)\<lparr>userData := Some bd\<rparr>] else doc
     | _ \<Rightarrow> doc)"

text \<open>The index of the block that holds position \<open>pos \<ge> 0\<close>.\<close>

fun findNode :: "'c MarkdownDocument \<Rightarrow> int \<Rightarrow> nat option" where
  "findNode [] pos = None"
| "findNode (b # bs) pos =
    (if pos < blockLength b then Some 0
     else map_option Suc (findNode bs (pos - blockLength b)))"

definition findBlock :: "'c MarkdownDocument \<Rightarrow> int \<Rightarrow> QTextBlock" where
  "findBlock doc pos =
    (if pos < 0 then EndBlock
     else case findNode doc pos of None \<Rightarrow> EndBlock | Some i \<Rightarrow> Block i)"

section \<open>DocumentStatistics\<close>

text \<open>
  The fields of \<open>DocumentStatisticsPrivate\<close> (\<open>d->wordCount\<close> is \<open>d_wordCount\<close>, and
  so on), with the document that \<open>d->document\<close> points to.
\<close>

record 'c DocumentStatisticsPrivate =
  document :: "'c MarkdownDocument"
  d_wordCount :: int
  d_totalWordCount :: int
  d_wordCharacterCount :: int
  d_sentenceCount :: int
  d_paragraphCount :: int
  d_pageCount :: int
  d_lixLongWordCount :: int
  d_readTimeMinutes :: int

text \<open>The signals of \<open>DocumentStatistics\<close>; an operation returns those it emits, in order.\<close>

datatype Signal =
  wordCountChanged int
| totalWordCountChanged int
| characterCountChanged int
| sentenceCountChanged int
| paragraphCountChanged int
| pageCountChanged int
| complexWordsChanged int
| readingTimeChanged int
| lixReadingEaseChanged int
| readabilityIndexChanged int

text \<open>The constructor.\<close>

definition DocumentStatistics :: "'c MarkdownDocument \<Rightarrow> 'c DocumentStatisticsPrivate" where
  "DocumentStatistics doc =
    \<lparr>document = doc, d_wordCount = 0, d_totalWordCount = 0, d_wordCharacterCount = 0,
     d_sentenceCount = 0, d_paragraphCount = 0, d_pageCount = 0, d_lixLongWordCount = 0,
     d_readTimeMinutes = 0\<rparr>"

text \<open>The accessors.\<close>

definition wordCount :: "'c DocumentStatisticsPrivate \<Rightarrow> int" where
  "wordCount d = d_wordCount d"

definition characterCount :: "'c DocumentStatisticsPrivate \<Rightarrow> int" where
  "characterCount d = documentCharacterCount (document d) - 1"

definition paragraphCount :: "'c DocumentStatisticsPrivate \<Rightarrow> int" where
  "paragraphCount d = d_paragraphCount d"

definition sentenceCount :: "'c DocumentStatisticsPrivate \<Rightarrow> int" where
  "sentenceCount d = d_sentenceCount d"

definition pageCount :: "'c DocumentStatisticsPrivate \<Rightarrow> int" where
  "pageCount d = d_pageCount d"

definition readingTime :: "'c DocumentStatisticsPrivate \<Rightarrow> int" where
  "readingTime d = d_readTimeMinutes d"

definition updateStatistics ::
  "'c DocumentStatisticsPrivate \<Rightarrow> 'c DocumentStatisticsPrivate \<times> Signal list" where
  "updateStatistics d0 =
    (let d = d0\<lparr>d_pageCount := calculatePageCount (d_wordCount d0),
                 d_readTimeMinutes := calculateReadingTime (d_wordCount d0)\<rparr>
     in (d,
         [wordCountChanged (d_wordCount d),
          totalWordCountChanged (d_wordCount d),
          characterCountChanged (documentCharacterCount (document d) - 1),
          sentenceCountChanged (d_sentenceCount d),
          paragraphCountChanged (d_paragraphCount d),
          pageCountChanged (d_pageCount d),
          complexWordsChanged (calculateComplexWords (d_wordCount d) (d_lixLongWordCount d)),
          readingTimeChanged (d_readTimeMinutes d),
          lixReadingEaseChanged
            (calculateLIX (d_wordCount d) (d_lixLongWordCount d) (d_sentenceCount d)),
          readabilityIndexChanged
            (calculateCLI (d_wordCharacterCount d) (d_wordCount d) (d_sentenceCount d))]))"

definition updateBlockStatistics ::
  "('c, 'x) Qt_scheme \<Rightarrow> 'c DocumentStatisticsPrivate \<Rightarrow> QTextBlock \<Rightarrow>
   'c DocumentStatisticsPrivate option" where
  "updateBlockStatistics Q d block =
    (let doc = document d;
         blockData = (case userDataOf doc block of None \<Rightarrow> newTextBlockData | Some bd \<Rightarrow> bd);
         (w, l, a) = countWords Q (textOf doc block);
         blockData = blockData\<lparr>bd_wordCount := w, bd_lixLongWordCount := l,
                       bd_alphaNumericCharacterCount := a\<rparr>
     in case countSentences Q (textOf doc block) of
          None \<Rightarrow> None
        | Some n \<Rightarrow>
            Some (d\<lparr>document := setUserData doc block (blockData\<lparr>bd_sentenceCount := n\<rparr>),
                    d_wordCount := d_wordCount d + w,
                    d_lixLongWordCount := d_lixLongWordCount d + l,
                    d_wordCharacterCount := d_wordCharacterCount d + a,
                    d_sentenceCount := d_sentenceCount d + n,
                    d_paragraphCount :=
                      (if length (trimmed Q (textOf doc block)) > 0 then d_paragraphCount d + 1
                       else d_paragraphCount d)\<rparr>))"

text \<open>The \<open>while (block != endBlock)\<close> loop of \<open>onTextChanged\<close>.\<close>

partial_function (option) updateLoop ::
  "('c, 'x) Qt_scheme \<Rightarrow> 'c DocumentStatisticsPrivate \<Rightarrow> QTextBlock \<Rightarrow> QTextBlock \<Rightarrow>
   'c DocumentStatisticsPrivate option" where
  "updateLoop Q d block endBlock =
    (if block \<noteq> endBlock then
       (let block' = nextBlock (document d) block
        in case updateBlockStatistics Q d block' of
             None \<Rightarrow> None
           | Some d' \<Rightarrow> updateLoop Q d' block' endBlock)
     else Some d)"

definition onTextChanged ::
  "('c, 'x) Qt_scheme \<Rightarrow> 'c DocumentStatisticsPrivate \<Rightarrow> int \<Rightarrow> int \<Rightarrow> int \<Rightarrow>
   ('c DocumentStatisticsPrivate \<times> Signal list) option" where
  "onTextChanged Q d0 position charsRemoved charsAdded =
    (let d = d0\<lparr>d_wordCount := 0, d_wordCharacterCount := 0, d_sentenceCount := 0,
                 d_paragraphCount := 0, d_pageCount := 0, d_lixLongWordCount := 0,
                 d_readTimeMinutes := 0\<rparr>;
         startBlock = firstBlock (document d);
         endBlock = lastBlock (document d)
     in case updateBlockStatistics Q d startBlock of
          None \<Rightarrow> None
        | Some d1 \<Rightarrow>
            (case updateLoop Q d1 startBlock endBlock of
               None \<Rightarrow> None
             | Some d2 \<Rightarrow> Some (updateStatistics d2)))"

text \<open>The \<open>while (block != end)\<close> loop of \<open>onTextSelected\<close>.\<close>

partial_function (option) selectedLoop ::
  "('c, 'x) Qt_scheme \<Rightarrow> 'c MarkdownDocument \<Rightarrow> QTextBlock \<Rightarrow> QTextBlock \<Rightarrow> int \<Rightarrow>
   int option" where
  "selectedLoop Q doc block end selectedParagraphCount =
    (if block \<noteq> end then
       selectedLoop Q doc (nextBlock doc block) end
         (if userDataOf doc block \<noteq> None \<and> length (trimmed Q (textOf doc block)) > 0
          then selectedParagraphCount + 1 else selectedParagraphCount)
     else Some selectedParagraphCount)"

definition onTextSelected ::
  "('c, 'x) Qt_scheme \<Rightarrow> 'c DocumentStatisticsPrivate \<Rightarrow> 'c list \<Rightarrow> int \<Rightarrow> int \<Rightarrow>
   ('c DocumentStatisticsPrivate \<times> Signal list) option" where
  "onTextSelected Q d selectedText selectionStart selectionEnd =
    (let (selectionWordCount, selectionLixLongWordCount, selectionWordCharacterCount) =
           countWords Q selectedText
     in case countSentences Q selectedText of
          None \<Rightarrow> None
        | Some selectionSentenceCount \<Rightarrow>
            (let block = findBlock (document d) selectionStart;
                 end = nextBlock (document d) (findBlock (document d) selectionEnd)
             in case selectedLoop Q (document d) block end 0 of
                  None \<Rightarrow> None
                | Some selectedParagraphCount \<Rightarrow>
                    Some (d,
                      [wordCountChanged selectionWordCount,
                       characterCountChanged (int (length selectedText)),
                       sentenceCountChanged selectionSentenceCount,
                       paragraphCountChanged selectedParagraphCount,
                       pageCountChanged (calculatePageCount selectionWordCount),
                       complexWordsChanged
                         (calculateComplexWords selectionWordCount selectionLixLongWordCount),
                       readingTimeChanged (calculateReadingTime selectionWordCount),
                       lixReadingEaseChanged
                         (calculateLIX selectionWordCount selectionLixLongWordCount
                            selectionSentenceCount),
                       readabilityIndexChanged
                         (calculateCLI selectionWordCharacterCount selectionWordCount
                            selectionSentenceCount)])))"

definition onTextDeselected ::
  "'c DocumentStatisticsPrivate \<Rightarrow> 'c DocumentStatisticsPrivate \<times> Signal list" where
  "onTextDeselected d = updateStatistics d"

text \<open>The slot connected to \<open>MarkdownDocument::cleared\<close> in the constructor.\<close>

definition onCleared ::
  "'c DocumentStatisticsPrivate \<Rightarrow> 'c DocumentStatisticsPrivate \<times> Signal list" where
  "onCleared d =
    updateStatistics
      (d\<lparr>d_wordCount := 0, d_wordCharacterCount := 0, d_sentenceCount := 0,
         d_paragraphCount := 0, d_pageCount := 0, d_lixLongWordCount := 0,
         d_readTimeMinutes := 0\<rparr>)"

section \<open>An instance of the Qt parameter for ASCII text\<close>

text \<open>
  For the concrete examples: on ASCII, \<open>QChar::isLetterOrNumber\<close> holds of the letters
  and the digits, and \<open>QChar::isSpace\<close> of the space and of the control characters
  9 to 13. The boundary finder of this instance ends a sentence after each run of
  \<open>.\<close>, \<open>!\<close> and \<open>?\<close> and the spaces that follow it, and at the end of the text.
\<close>

definition asciiLetterOrNumber :: "char \<Rightarrow> bool" where
  "asciiLetterOrNumber c =
    (let n = of_char c :: nat
     in (48 \<le> n \<and> n \<le> 57) \<or> (65 \<le> n \<and> n \<le> 90) \<or> (97 \<le> n \<and> n \<le> 122))"

definition asciiSpace :: "char \<Rightarrow> bool" where
  "asciiSpace c = (let n = of_char c :: nat in n = 32 \<or> (9 \<le> n \<and> n \<le> 13))"

definition asciiTerminator :: "char \<Rightarrow> bool" where
  "asciiTerminator c = (c = CHR ''.'' \<or> c = CHR ''!'' \<or> c = CHR ''?'')"

text \<open>
  The length of the sentence that starts a text: up to the first terminator, then the
  terminators and spaces after it.
\<close>

fun sentenceEnd :: "bool \<Rightarrow> string \<Rightarrow> nat" where
  "sentenceEnd seen [] = 0"
| "sentenceEnd seen (c # cs) =
    (if asciiTerminator c then Suc (sentenceEnd True cs)
     else if seen \<and> asciiSpace c then Suc (sentenceEnd True cs)
     else if seen then 0
     else Suc (sentenceEnd False cs))"

definition asciiNextBoundary :: "string \<Rightarrow> int \<Rightarrow> int" where
  "asciiNextBoundary text pos =
    (if pos < 0 \<or> int (length text) \<le> pos then - 1
     else pos + int (sentenceEnd False (drop (nat pos) text)))"

definition asciiQt :: "char Qt" where
  "asciiQt = \<lparr>isLetterOrNumber = asciiLetterOrNumber, isSpace = asciiSpace,
              toNextBoundary = asciiNextBoundary\<rparr>"

section \<open>Notions used in the statements\<close>

text \<open>
  The invariant of the loop of \<open>countWords\<close> after \<open>n\<close> characters: every counter
  is between 0 and \<open>n\<close>, an open word has at least one character, and two once a
  separator was absorbed into it.
\<close>

definition cwInv :: "nat \<Rightarrow> cwState \<Rightarrow> bool" where
  "cwInv n s \<longleftrightarrow>
     0 \<le> separatorCount s \<and> separatorCount s \<le> int n \<and>
     0 \<le> lixLongWords s \<and> lixLongWords s \<le> words s \<and>
     0 \<le> wordLen s \<and> words s + wordLen s \<le> int n \<and>
     wordLen s \<le> alphaNumericCharacters s \<and> alphaNumericCharacters s \<le> int n \<and>
     (if inWord s then 1 \<le> wordLen s \<and> (0 < separatorCount s \<longrightarrow> 2 \<le> wordLen s)
      else wordLen s = 0)"

text \<open>
  The boundary steps \<open>(oldPos, nextPos)\<close> that the loop of \<open>countSentences\<close> makes from
  a position, at most \<open>fuel\<close> of them; a text of \<open>n\<close> characters has at most \<open>n + 1\<close>.
\<close>

fun stepsFrom :: "('c, 'x) Qt_scheme \<Rightarrow> 'c list \<Rightarrow> nat \<Rightarrow> int \<Rightarrow> (int \<times> int) list" where
  "stepsFrom Q str 0 pos = []"
| "stepsFrom Q str (Suc fuel) pos =
    (if 0 \<le> pos
     then (pos, toNextBoundary Q str pos) # stepsFrom Q str fuel (toNextBoundary Q str pos)
     else [])"

definition boundarySteps :: "('c, 'x) Qt_scheme \<Rightarrow> 'c list \<Rightarrow> (int \<times> int) list" where
  "boundarySteps Q str = stepsFrom Q str (Suc (length str)) 0"

text \<open>
  The specification's rule for a step: it counts as a sentence if the segment is longer
  than one character, or is one character that is not white space.
\<close>

definition isSentenceStep :: "('c, 'x) Qt_scheme \<Rightarrow> 'c list \<Rightarrow> int \<times> int \<Rightarrow> bool" where
  "isSentenceStep Q str step =
    (case step of (oldPos, nextPos) \<Rightarrow>
       nextPos - oldPos > 1 \<or> (nextPos - oldPos = 1 \<and> \<not> isSpace Q (str ! nat oldPos)))"

text \<open>The values that a batch of signals publishes for one metric.\<close>

fun signalValue :: "Signal \<Rightarrow> int" where
  "signalValue (wordCountChanged n) = n"
| "signalValue (totalWordCountChanged n) = n"
| "signalValue (characterCountChanged n) = n"
| "signalValue (sentenceCountChanged n) = n"
| "signalValue (paragraphCountChanged n) = n"
| "signalValue (pageCountChanged n) = n"
| "signalValue (complexWordsChanged n) = n"
| "signalValue (readingTimeChanged n) = n"
| "signalValue (lixReadingEaseChanged n) = n"
| "signalValue (readabilityIndexChanged n) = n"

definition published :: "(int \<Rightarrow> Signal) \<Rightarrow> Signal list \<Rightarrow> int list" where
  "published metric sigs = map signalValue (filter (\<lambda>s. s = metric (signalValue s)) sigs)"

text \<open>The cached word count of a paragraph, and whether a paragraph is blank.\<close>

definition cachedWordCount :: "'c TextBlock \<Rightarrow> int" where
  "cachedWordCount b = (case userData b of None \<Rightarrow> 0 | Some bd \<Rightarrow> bd_wordCount bd)"

definition nonBlank :: "('c, 'x) Qt_scheme \<Rightarrow> 'c TextBlock \<Rightarrow> bool" where
  "nonBlank Q b = (trimmed Q (blockText b) \<noteq> [])"

text \<open>
  The position of the first character of paragraph \<open>k\<close>. The selected characters are
  those at the positions \<open>selectionStart\<close> to \<open>selectionEnd - 1\<close>; paragraph \<open>k\<close>
  overlaps the selection range if one of its positions is among them.
\<close>

definition blockPosition :: "'c MarkdownDocument \<Rightarrow> nat \<Rightarrow> int" where
  "blockPosition doc k = sum_list (map blockLength (take k doc))"

definition overlapsSelection :: "'c MarkdownDocument \<Rightarrow> int \<Rightarrow> int \<Rightarrow> nat \<Rightarrow> bool" where
  "overlapsSelection doc selectionStart selectionEnd k =
    (blockPosition doc k < selectionEnd \<and> selectionStart < blockPosition doc (Suc k))"

text \<open>
  The paragraphs that the loop of \<open>onTextSelected\<close> visits: from the paragraph that holds
  the position \<open>selectionStart\<close> to the paragraph that holds the position
  \<open>selectionEnd\<close>, which is the position after the last selected character.
\<close>

definition loopVisits :: "'c MarkdownDocument \<Rightarrow> int \<Rightarrow> int \<Rightarrow> nat \<Rightarrow> bool" where
  "loopVisits doc selectionStart selectionEnd k =
    (blockPosition doc k \<le> selectionEnd \<and> selectionStart < blockPosition doc (Suc k))"

text \<open>
  The invariant of the paragraph loop of \<open>onTextChanged\<close> once the first \<open>k\<close>
  paragraphs are done: each of them has a cache entry that holds the word count of its
  text, and the totals are the sums over them.
\<close>

definition docInv ::
  "('c, 'x) Qt_scheme \<Rightarrow> nat \<Rightarrow> 'c DocumentStatisticsPrivate \<Rightarrow> bool" where
  "docInv Q k d \<longleftrightarrow>
     d_wordCount d = sum_list (map cachedWordCount (take k (document d))) \<and>
     d_paragraphCount d = int (length (filter (nonBlank Q) (take k (document d)))) \<and>
     list_all (\<lambda>b. case userData b of None \<Rightarrow> False
                  | Some bd \<Rightarrow> bd_wordCount bd = fst (countWords Q (blockText b)))
       (take k (document d))"

text \<open>
  Paragraph \<open>k\<close> is a selected paragraph: it overlaps the selection range, it has a
  cache entry, and its trimmed text is not empty.
\<close>

definition selectionCounted ::
  "('c, 'x) Qt_scheme \<Rightarrow> 'c MarkdownDocument \<Rightarrow> int \<Rightarrow> int \<Rightarrow> nat \<Rightarrow> bool" where
  "selectionCounted Q doc selectionStart selectionEnd k =
    (overlapsSelection doc selectionStart selectionEnd k \<and>
     userData (doc ! k) \<noteq> None \<and> nonBlank Q (doc ! k))"

text \<open>
  Paragraph \<open>k\<close> is counted by the loop of \<open>onTextSelected\<close>: the loop visits it, it has a
  cache entry, and its trimmed text is not empty.
\<close>

definition loopCounted ::
  "('c, 'x) Qt_scheme \<Rightarrow> 'c MarkdownDocument \<Rightarrow> int \<Rightarrow> int \<Rightarrow> nat \<Rightarrow> bool" where
  "loopCounted Q doc selectionStart selectionEnd k =
    (loopVisits doc selectionStart selectionEnd k \<and>
     userData (doc ! k) \<noteq> None \<and> nonBlank Q (doc ! k))"

text \<open>The ten metrics of a batch.\<close>

definition allMetrics :: "(int \<Rightarrow> Signal) list" where
  "allMetrics =
    [wordCountChanged, totalWordCountChanged, characterCountChanged, sentenceCountChanged,
     paragraphCountChanged, pageCountChanged, complexWordsChanged, readingTimeChanged,
     lixReadingEaseChanged, readabilityIndexChanged]"

section \<open>Rules for evaluating the model on concrete inputs\<close>

lemmas cw_eval = countWords_def cwFinish_def cwInit_def cwChar_def asciiQt_def
  asciiLetterOrNumber_def asciiSpace_def Let_def

lemmas ascii_eval = asciiQt_def asciiLetterOrNumber_def asciiSpace_def asciiTerminator_def
  asciiNextBoundary_def trimmed_def

lemmas doc_eval = onTextChanged_def onTextSelected_def updateBlockStatistics_def
  updateStatistics_def countSentences_def firstBlock_def lastBlock_def nextBlock_def
  textOf_def userDataOf_def setUserData_def findBlock_def blockLength_def
  DocumentStatistics_def newTextBlockData_def published_def
  sentenceLoop.simps updateLoop.simps selectedLoop.simps

lemmas selection_eval = selectionCounted_def overlapsSelection_def loopCounted_def
  loopVisits_def blockPosition_def nonBlank_def documentCharacterCount_def blockLength_def
  DocumentStatistics_def

lemmas fp_eval = roundTo_def floorLog2_def scaleBy_def roundHalfEven_def fpDiv_def fpMul_def
  fpAdd_def fpSub_def qCeil_def toDouble_def toFloat_def doubleLiteral_def Let_def
  bitLength.simps

section \<open>Properties of countWords\<close>

lemma cwInv_init: "cwInv 0 cwInit"
  by (simp add: cwInv_def cwInit_def)

lemma cwInv_char: "cwInv n s \<Longrightarrow> cwInv (Suc n) (cwChar Q s c)"
  by (auto simp: cwInv_def cwChar_def Let_def split: if_splits)

lemma cwInv_foldl: "cwInv n s \<Longrightarrow> cwInv (n + length str) (foldl (cwChar Q) s str)"
proof (induction str arbitrary: n s)
  case Nil
  then show ?case by simp
next
  case (Cons c cs)
  from Cons.prems have "cwInv (Suc n) (cwChar Q s c)" by (rule cwInv_char)
  from Cons.IH [OF this] show ?case by simp
qed

lemma cwInv_loop: "cwInv (length str) (foldl (cwChar Q) cwInit str)"
  using cwInv_foldl [OF cwInv_init, of str Q] by simp

lemma cwInv_finish:
  assumes "cwInv n s"
  shows "0 \<le> wordLen (cwFinish s)" "0 \<le> lixLongWords (cwFinish s)"
    "lixLongWords (cwFinish s) \<le> words (cwFinish s)" "words (cwFinish s) \<le> int n"
    "0 \<le> alphaNumericCharacters (cwFinish s)" "alphaNumericCharacters (cwFinish s) \<le> int n"
    "0 \<le> words (cwFinish s)"
  using assms by (auto simp: cwInv_def cwFinish_def Let_def split: if_splits)

text \<open>
  C1, as the code has it: \<open>countWords("well-known")\<close> is 1 word, 1 long word and 10
  characters. The hyphen absorbed into the word is counted in the length of the word
  and in the character total; only a separator that ends a word is taken back.
\<close>

theorem countWords_well_known: "countWords asciiQt ''well-known'' = (1, 1, 10)"
  by (simp add: cw_eval)

text \<open>C1 as stated (9 characters, the hyphen not counted) does not hold.\<close>

theorem countWords_well_known_not_9: "countWords asciiQt ''well-known'' \<noteq> (1, 1, 9)"
  by (simp add: cw_eval)

text \<open>
  C3: \<open>countWords("done--next")\<close> is 2 words, split at the double dash, no long word
  and 8 characters: neither word's length includes a separator. The word closed by the
  double dash has 4 characters, and a word of 6 letters before a double dash is not a
  long word.
\<close>

theorem countWords_done_next:
  "countWords asciiQt ''done--next'' = (2, 0, 8) \<and>
   countWords asciiQt ''done--'' = (1, 0, 4) \<and>
   countWords asciiQt ''abcdef--x'' = (2, 0, 7)"
  by (simp add: cw_eval)

text \<open>
  C9: \<open>countWords\<close> is a total function. Its outputs are not negative, the long words
  are at most the words, and no counter exceeds the length of the text; the empty text
  gives \<open>(0, 0, 0)\<close>. The word length and the character count are not negative after
  any number of loop iterations, nor after the closing of the last word.
\<close>

theorem countWords_bounded:
  "0 \<le> fst (countWords Q str) \<and>
   0 \<le> fst (snd (countWords Q str)) \<and>
   0 \<le> snd (snd (countWords Q str)) \<and>
   fst (snd (countWords Q str)) \<le> fst (countWords Q str) \<and>
   fst (countWords Q str) \<le> int (length str) \<and>
   snd (snd (countWords Q str)) \<le> int (length str) \<and>
   countWords Q [] = (0, 0, 0) \<and>
   0 \<le> wordLen (foldl (cwChar Q) cwInit str) \<and>
   0 \<le> alphaNumericCharacters (foldl (cwChar Q) cwInit str) \<and>
   0 \<le> wordLen (cwFinish (foldl (cwChar Q) cwInit str))"
proof -
  let ?s = "foldl (cwChar Q) cwInit str"
  have inv: "cwInv (length str) ?s" by (rule cwInv_loop)
  have loop: "0 \<le> wordLen ?s" "0 \<le> alphaNumericCharacters ?s"
    using inv by (auto simp: cwInv_def)
  have empty: "countWords Q [] = (0, 0, 0)"
    by (simp add: countWords_def cwFinish_def cwInit_def)
  show ?thesis
    using cwInv_finish [OF inv] loop empty by (simp add: countWords_def Let_def)
qed

section \<open>Properties of countSentences\<close>

lemma sentenceLoop_done: "pos < 0 \<Longrightarrow> sentenceLoop Q str pos count = Some count"
  by (subst sentenceLoop.simps) simp

lemma sentenceLoop_steps:
  assumes "boundaryContract Q"
  shows "pos \<le> int (length str) \<Longrightarrow> nat (int (length str) - pos) < fuel \<Longrightarrow>
    sentenceLoop Q str pos count =
      Some (count + int (length (filter (isSentenceStep Q str) (stepsFrom Q str fuel pos))))"
proof (induction fuel arbitrary: pos count)
  case 0
  then show ?case by simp
next
  case (Suc fuel)
  show ?case
  proof (cases "0 \<le> pos")
    case False
    then show ?thesis by (simp add: sentenceLoop_done)
  next
    case True
    let ?n = "toNextBoundary Q str pos"
    from assms True have c: "?n = - 1 \<or> (pos < ?n \<and> ?n \<le> int (length str))"
      by (simp add: boundaryContract_def)
    show ?thesis
    proof (cases "?n = - 1")
      case n: True
      have "sentenceLoop Q str pos count = sentenceLoop Q str ?n count"
        using True n by (subst sentenceLoop.simps) (simp add: Let_def)
      also have "\<dots> = Some count" using n by (simp add: sentenceLoop_done)
      finally show ?thesis
        using True n by (cases fuel) (simp_all add: isSentenceStep_def)
    next
      case False
      with c have r: "pos < ?n" "?n \<le> int (length str)" by simp_all
      with Suc.prems have f: "nat (int (length str) - ?n) < fuel" by linarith
      have step: "sentenceLoop Q str pos count =
          sentenceLoop Q str ?n (if isSentenceStep Q str (pos, ?n) then count + 1 else count)"
        using True r by (subst sentenceLoop.simps) (auto simp: Let_def isSentenceStep_def)
      show ?thesis
        unfolding step using Suc.IH [OF r(2) f] True by simp
    qed
  qed
qed

lemma countSentences_steps:
  assumes "boundaryContract Q"
  shows "countSentences Q str =
    Some (if trimmed Q str = [] then 0
          else int (length (filter (isSentenceStep Q (trimmed Q str))
                 (boundarySteps Q (trimmed Q str)))))"
  using sentenceLoop_steps [OF assms, of 0 "trimmed Q str" "Suc (length (trimmed Q str))" 0]
  by (simp add: countSentences_def boundarySteps_def Let_def)

lemma sentenceEnd_le: "sentenceEnd seen cs \<le> length cs"
  by (induction cs arbitrary: seen) auto

lemma sentenceEnd_pos: "cs \<noteq> [] \<Longrightarrow> 0 < sentenceEnd False cs"
  by (cases cs) auto

lemma asciiQt_contract: "boundaryContract asciiQt"
proof -
  have "pos < asciiNextBoundary str pos \<and> asciiNextBoundary str pos \<le> int (length str)"
    if "0 \<le> pos" "pos < int (length str)" for str pos
  proof -
    from that have ne: "drop (nat pos) str \<noteq> []" by simp
    have "sentenceEnd False (drop (nat pos) str) \<le> length (drop (nat pos) str)"
      by (rule sentenceEnd_le)
    with that sentenceEnd_pos [OF ne] show ?thesis
      by (simp add: asciiNextBoundary_def)
  qed
  moreover have "asciiNextBoundary str pos = - 1" if "int (length str) \<le> pos" for str pos
    using that by (simp add: asciiNextBoundary_def)
  ultimately show ?thesis
    unfolding boundaryContract_def asciiQt_def by (simp add: not_le) (metis not_le)
qed

text \<open>
  C8: \<open>countSentences\<close> trims the text and returns 0 when nothing is left, as for
  \<open>"   "\<close>. Otherwise, with a boundary finder that keeps its contract, it returns the
  number of boundary steps \<open>(oldPos, nextPos)\<close> that are longer than one character, or
  are one character that is not white space.
\<close>

theorem countSentences_rule:
  "(trimmed Q str = [] \<longrightarrow> countSentences Q str = Some 0) \<and>
   countSentences asciiQt ''   '' = Some 0 \<and>
   (boundaryContract Q \<longrightarrow> trimmed Q str \<noteq> [] \<longrightarrow>
      countSentences Q str =
        Some (int (length (filter (isSentenceStep Q (trimmed Q str))
                (boundarySteps Q (trimmed Q str))))))"
proof (intro conjI impI)
  show "countSentences Q str = Some 0" if "trimmed Q str = []"
    using that by (simp add: countSentences_def)
  show "countSentences asciiQt ''   '' = Some 0"
    by (simp add: countSentences_def ascii_eval)
  show "countSentences Q str =
        Some (int (length (filter (isSentenceStep Q (trimmed Q str))
                (boundarySteps Q (trimmed Q str)))))"
    if "boundaryContract Q" "trimmed Q str \<noteq> []"
    using countSentences_steps [OF that(1), of str] that(2) by simp
qed

theorem countSentences_rule_witness:
  "boundaryContract asciiQt \<and> trimmed asciiQt '' Hi. Ok '' \<noteq> [] \<and>
   countSentences asciiQt '' Hi. Ok '' = Some 2 \<and>
   trimmed asciiQt ''   '' = [] \<and> countSentences asciiQt ''   '' = Some 0"
proof -
  have t: "trimmed asciiQt '' Hi. Ok '' = ''Hi. Ok''" by (simp add: ascii_eval)
  have s: "boundarySteps asciiQt ''Hi. Ok'' = [(0, 4), (4, 6), (6, - 1)]"
    by (simp add: ascii_eval boundarySteps_def)
  have e: "trimmed asciiQt ''   '' = []" by (simp add: ascii_eval)
  from countSentences_rule [of asciiQt "'' Hi. Ok ''"] asciiQt_contract t
  have "countSentences asciiQt '' Hi. Ok '' =
      Some (int (length (filter (isSentenceStep asciiQt ''Hi. Ok'') (boundarySteps asciiQt ''Hi. Ok''))))"
    by simp
  then have "countSentences asciiQt '' Hi. Ok '' = Some 2"
    unfolding s by (simp add: isSentenceStep_def ascii_eval)
  moreover from countSentences_rule [of asciiQt "''   ''"] e
  have "countSentences asciiQt ''   '' = Some 0" by simp
  ultimately show ?thesis using asciiQt_contract t e by simp
qed

section \<open>The whole-document recompute\<close>

lemma blockText_setUserData [simp]:
  "map blockText (setUserData doc b bd) = map blockText doc"
  by (cases b) (auto simp: setUserData_def nth_list_update intro!: nth_equalityI)

lemma length_setUserData [simp]: "length (setUserData doc b bd) = length doc"
  by (cases b) (simp_all add: setUserData_def)

lemma documentCharacterCount_text:
  "map blockText doc' = map blockText doc \<Longrightarrow>
   documentCharacterCount doc' = documentCharacterCount doc"
proof -
  assume a: "map blockText doc' = map blockText doc"
  have h: "map blockLength xs = map (\<lambda>t. int (length t) + 1) (map blockText xs)"
    for xs :: "'a TextBlock list"
    by (induction xs) (simp_all add: blockLength_def)
  show ?thesis unfolding documentCharacterCount_def h a ..
qed

lemma docInv_0:
  "d_wordCount d = 0 \<Longrightarrow> d_paragraphCount d = 0 \<Longrightarrow> docInv Q 0 d"
  by (simp add: docInv_def)

lemma updateBlockStatistics_invalid:
  "\<not> isValid (document d) b \<Longrightarrow> updateBlockStatistics Q d b =
     Some (d\<lparr>document := document d, d_wordCount := d_wordCount d,
             d_lixLongWordCount := d_lixLongWordCount d,
             d_wordCharacterCount := d_wordCharacterCount d,
             d_sentenceCount := d_sentenceCount d, d_paragraphCount := d_paragraphCount d\<rparr>)"
  by (cases b)
    (simp_all add: isValid_def updateBlockStatistics_def textOf_def userDataOf_def
      setUserData_def countWords_def cwFinish_def cwInit_def countSentences_def trimmed_def)

lemma updateBlockStatistics_step:
  assumes c: "boundaryContract Q" and k: "k < length (document d)" and inv: "docInv Q k d"
  shows "\<exists>d'. updateBlockStatistics Q d (Block k) = Some d' \<and> docInv Q (Suc k) d' \<and>
           map blockText (document d') = map blockText (document d)"
proof -
  let ?doc = "document d"
  let ?t = "blockText (?doc ! k)"
  obtain n where n: "countSentences Q ?t = Some n"
    using countSentences_steps [OF c, of ?t] by blast
  obtain w l a where w: "countWords Q ?t = (w, l, a)" by (cases "countWords Q ?t")
  define bd0 where "bd0 = (case userData (?doc ! k) of None \<Rightarrow> newTextBlockData | Some bd \<Rightarrow> bd)"
  define bd where "bd = bd0\<lparr>bd_wordCount := w, bd_lixLongWordCount := l,
                       bd_alphaNumericCharacterCount := a, bd_sentenceCount := n\<rparr>"
  define b' where "b' = (?doc ! k)\<lparr>userData := Some bd\<rparr>"
  define d' where "d' = d\<lparr>document := ?doc[k := b'],
                    d_wordCount := d_wordCount d + w,
                    d_lixLongWordCount := d_lixLongWordCount d + l,
                    d_wordCharacterCount := d_wordCharacterCount d + a,
                    d_sentenceCount := d_sentenceCount d + n,
                    d_paragraphCount :=
                      (if length (trimmed Q ?t) > 0 then d_paragraphCount d + 1
                       else d_paragraphCount d)\<rparr>"
  have run: "updateBlockStatistics Q d (Block k) = Some d'"
    using k n w
    by (simp add: updateBlockStatistics_def textOf_def userDataOf_def setUserData_def
        d'_def b'_def bd_def bd0_def Let_def)
  have tk: "take (Suc k) (document d') = take k ?doc @ [b']"
    using k by (simp add: d'_def take_Suc_conv_app_nth)
  have cw: "cachedWordCount b' = w" by (simp add: cachedWordCount_def b'_def bd_def)
  have nb: "nonBlank Q b' \<longleftrightarrow> length (trimmed Q ?t) > 0"
    by (simp add: nonBlank_def b'_def)
  have fresh: "userData b' = Some bd" "bd_wordCount bd = fst (countWords Q (blockText b'))"
    by (simp_all add: b'_def bd_def w)
  have keep: "d_wordCount d' = d_wordCount d + w"
    "d_paragraphCount d' = (if length (trimmed Q ?t) > 0 then d_paragraphCount d + 1
                       else d_paragraphCount d)"
    by (simp_all add: d'_def)
  have "docInv Q (Suc k) d'"
    using inv unfolding docInv_def tk keep
    by (simp add: cw nb fresh)
  moreover have "map blockText (document d') = map blockText ?doc"
    using k by (simp add: d'_def b'_def map_update list_update_same_conv)
  ultimately show ?thesis using run by blast
qed

lemma updateLoop_run:
  assumes c: "boundaryContract Q"
  shows "i < length (document d) \<Longrightarrow> docInv Q (Suc i) d \<Longrightarrow> m = length (document d) - Suc i \<Longrightarrow>
    \<exists>d'. updateLoop Q d (Block i) (Block (length (document d) - 1)) = Some d' \<and>
         docInv Q (length (document d')) d' \<and>
         map blockText (document d') = map blockText (document d)"
proof (induction m arbitrary: i d)
  case 0
  then have e: "i = length (document d) - 1" "Suc i = length (document d)" by simp_all
  have "updateLoop Q d (Block i) (Block (length (document d) - 1)) = Some d"
    using e by (subst updateLoop.simps) simp
  with 0 e show ?case by simp
next
  case (Suc m)
  let ?n = "length (document d)"
  from Suc.prems have lt: "Suc i < ?n" by simp
  then have nx: "nextBlock (document d) (Block i) = Block (Suc i)"
    by (simp add: nextBlock_def)
  from updateBlockStatistics_step [OF c lt Suc.prems(2)]
  obtain d1 where d1: "updateBlockStatistics Q d (Block (Suc i)) = Some d1"
    "docInv Q (Suc (Suc i)) d1" "map blockText (document d1) = map blockText (document d)"
    by blast
  from d1(3) have len: "length (document d1) = ?n" by (metis length_map)
  have m: "m = length (document d1) - Suc (Suc i)" using Suc.prems(3) len by simp
  from Suc.IH [OF _ d1(2) m] lt len
  obtain d' where d': "updateLoop Q d1 (Block (Suc i)) (Block (?n - 1)) = Some d'"
    "docInv Q (length (document d')) d'"
    "map blockText (document d') = map blockText (document d1)"
    by auto
  have "updateLoop Q d (Block i) (Block (?n - 1)) = Some d'"
    using lt nx d1(1) d'(1) by (subst updateLoop.simps) (simp add: Let_def)
  with d'(2,3) d1(3) show ?case by simp
qed

lemma onTextChanged_returns:
  assumes c: "boundaryContract Q"
  shows "\<exists>d2. onTextChanged Q d position charsRemoved charsAdded = Some (updateStatistics d2) \<and>
           docInv Q (length (document d2)) d2 \<and>
           map blockText (document d2) = map blockText (document d)"
proof -
  define r where "r = d\<lparr>d_wordCount := 0, d_wordCharacterCount := 0, d_sentenceCount := 0,
                 d_paragraphCount := 0, d_pageCount := 0, d_lixLongWordCount := 0,
                 d_readTimeMinutes := 0\<rparr>"
  have doc: "document r = document d" by (simp add: r_def)
  have inv0: "docInv Q 0 r" by (rule docInv_0) (simp_all add: r_def)
  have unf: "onTextChanged Q d position charsRemoved charsAdded =
      (case updateBlockStatistics Q r (firstBlock (document r)) of
          None \<Rightarrow> None
        | Some d1 \<Rightarrow>
            (case updateLoop Q d1 (firstBlock (document r)) (lastBlock (document r)) of
               None \<Rightarrow> None
             | Some d2 \<Rightarrow> Some (updateStatistics d2)))"
    by (simp only: onTextChanged_def Let_def r_def)
  show ?thesis
  proof (cases "document d = []")
    case True
    have "updateBlockStatistics Q r EndBlock = Some r"
      using updateBlockStatistics_invalid [of r EndBlock Q] by (simp add: isValid_def)
    moreover have "updateLoop Q r EndBlock EndBlock = Some r"
      by (subst updateLoop.simps) simp
    ultimately have "onTextChanged Q d position charsRemoved charsAdded = Some (updateStatistics r)"
      using True doc by (simp add: unf firstBlock_def lastBlock_def)
    moreover have "docInv Q (length (document r)) r" using inv0 True doc by simp
    ultimately show ?thesis using doc by (intro exI [of _ r]) simp
  next
    case False
    then have pos: "0 < length (document r)" using doc by simp
    from updateBlockStatistics_step [OF c pos inv0]
    obtain d1 where d1: "updateBlockStatistics Q r (Block 0) = Some d1" "docInv Q (Suc 0) d1"
      "map blockText (document d1) = map blockText (document r)" by blast
    from d1(3) have len: "length (document d1) = length (document r)" by (metis length_map)
    from updateLoop_run [OF c _ d1(2) refl] pos len
    obtain d2 where d2: "updateLoop Q d1 (Block 0) (Block (length (document r) - 1)) = Some d2"
      "docInv Q (length (document d2)) d2"
      "map blockText (document d2) = map blockText (document d1)" by auto
    have "onTextChanged Q d position charsRemoved charsAdded = Some (updateStatistics d2)"
      using False doc d1(1) d2(1) by (simp add: unf firstBlock_def lastBlock_def)
    with d2(2,3) d1(3) doc show ?thesis by auto
  qed
qed

lemma published_updateStatistics:
  "published wordCountChanged (snd (updateStatistics d)) = [d_wordCount d]"
  "published totalWordCountChanged (snd (updateStatistics d)) = [d_wordCount d]"
  "published characterCountChanged (snd (updateStatistics d)) =
     [documentCharacterCount (document d) - 1]"
  "published paragraphCountChanged (snd (updateStatistics d)) = [d_paragraphCount d]"
  "published sentenceCountChanged (snd (updateStatistics d)) = [d_sentenceCount d]"
  by (simp_all add: updateStatistics_def published_def Let_def)

lemma fields_updateStatistics [simp]:
  "document (fst (updateStatistics d)) = document d"
  "d_wordCount (fst (updateStatistics d)) = d_wordCount d"
  "d_paragraphCount (fst (updateStatistics d)) = d_paragraphCount d"
  "d_sentenceCount (fst (updateStatistics d)) = d_sentenceCount d"
  by (simp_all add: updateStatistics_def Let_def)

text \<open>
  C4: with a boundary finder that keeps its contract, \<open>onTextChanged\<close> returns; the
  word count it publishes and stores is the sum of the cached word counts of all
  paragraphs, in document order, each cache entry holding the word count of its
  paragraph's text; the paragraph count it publishes and stores is the number of
  paragraphs whose trimmed text is not empty. The texts are not changed.
\<close>

theorem whole_document_recompute:
  assumes "boundaryContract Q"
  shows "\<exists>d' sigs.
    onTextChanged Q d position charsRemoved charsAdded = Some (d', sigs) \<and>
    published wordCountChanged sigs = [sum_list (map cachedWordCount (document d'))] \<and>
    wordCount d' = sum_list (map cachedWordCount (document d')) \<and>
    map cachedWordCount (document d') =
      map (\<lambda>b. fst (countWords Q (blockText b))) (document d') \<and>
    published paragraphCountChanged sigs = [int (length (filter (nonBlank Q) (document d')))] \<and>
    paragraphCount d' = int (length (filter (nonBlank Q) (document d'))) \<and>
    map blockText (document d') = map blockText (document d)"
proof -
  from onTextChanged_returns [OF assms, of d position charsRemoved charsAdded]
  obtain d2 where d2: "onTextChanged Q d position charsRemoved charsAdded = Some (updateStatistics d2)"
    "docInv Q (length (document d2)) d2"
    "map blockText (document d2) = map blockText (document d)" by blast
  from d2(2) have w: "d_wordCount d2 = sum_list (map cachedWordCount (document d2))"
    and p: "d_paragraphCount d2 = int (length (filter (nonBlank Q) (document d2)))"
    and f: "map cachedWordCount (document d2) =
      map (\<lambda>b. fst (countWords Q (blockText b))) (document d2)"
    by (auto simp: docInv_def list_all_iff cachedWordCount_def split: option.splits)
  let ?d' = "fst (updateStatistics d2)" and ?s = "snd (updateStatistics d2)"
  have doc: "document ?d' = document d2" by simp
  have 1: "onTextChanged Q d position charsRemoved charsAdded = Some (?d', ?s)"
    using d2(1) by simp
  have 2: "published wordCountChanged ?s = [sum_list (map cachedWordCount (document ?d'))]"
    unfolding doc by (simp only: published_updateStatistics w)
  have 3: "wordCount ?d' = sum_list (map cachedWordCount (document ?d'))"
    unfolding doc by (simp add: wordCount_def w)
  have 4: "map cachedWordCount (document ?d') =
      map (\<lambda>b. fst (countWords Q (blockText b))) (document ?d')"
    unfolding doc by (rule f)
  have 5: "published paragraphCountChanged ?s =
      [int (length (filter (nonBlank Q) (document ?d')))]"
    unfolding doc by (simp only: published_updateStatistics p)
  have 6: "paragraphCount ?d' = int (length (filter (nonBlank Q) (document ?d')))"
    unfolding doc by (simp add: paragraphCount_def p)
  have 7: "map blockText (document ?d') = map blockText (document d)"
    unfolding doc by (rule d2(3))
  from 1 2 3 4 5 6 7 show ?thesis by blast
qed

theorem whole_document_recompute_witness:
  "boundaryContract asciiQt \<and>
   (\<exists>d' sigs.
      onTextChanged asciiQt
        (DocumentStatistics
          [\<lparr>blockText = ''The quick brown fox.'', userData = None\<rparr>,
           \<lparr>blockText = [], userData = None\<rparr>,
           \<lparr>blockText = ''It jumps.'', userData = None\<rparr>]) 0 0 0 = Some (d', sigs) \<and>
      published wordCountChanged sigs = [6] \<and>
      map cachedWordCount (document d') = [4, 0, 2] \<and>
      published paragraphCountChanged sigs = [2])"
proof -
  let ?d = "DocumentStatistics
          [\<lparr>blockText = ''The quick brown fox.'', userData = None\<rparr>,
           \<lparr>blockText = [], userData = None\<rparr>,
           \<lparr>blockText = ''It jumps.'', userData = None\<rparr>]"
  from whole_document_recompute [OF asciiQt_contract, of ?d 0 0 0]
  obtain d' sigs where r: "onTextChanged asciiQt ?d 0 0 0 = Some (d', sigs)"
    "published wordCountChanged sigs = [sum_list (map cachedWordCount (document d'))]"
    "map cachedWordCount (document d') =
      map (\<lambda>b. fst (countWords asciiQt (blockText b))) (document d')"
    "published paragraphCountChanged sigs = [int (length (filter (nonBlank asciiQt) (document d')))]"
    by blast
  have ev: "map_option (\<lambda>r. (map cachedWordCount (document (fst r)),
        length (filter (nonBlank asciiQt) (document (fst r)))))
      (onTextChanged asciiQt ?d 0 0 0) = Some ([4, 0, 2], 2)"
    by (simp add: doc_eval cw_eval ascii_eval cachedWordCount_def nonBlank_def)
  from ev r(1) have c: "map cachedWordCount (document d') = [4, 0, 2]"
    "length (filter (nonBlank asciiQt) (document d')) = 2" by simp_all
  have w: "published wordCountChanged sigs = [6]"
    using r(2) unfolding c(1) by simp
  have p: "published paragraphCountChanged sigs = [2]"
    using r(4) unfolding c(2) by simp
  from asciiQt_contract r(1) w c(1) p show ?thesis by auto
qed


section \<open>The selection event\<close>

lemma blockLength_pos: "0 < blockLength b"
  by (simp add: blockLength_def)

lemma blockPosition_Cons:
  "blockPosition (b # bs) (Suc k) = blockLength b + blockPosition bs k"
  "blockPosition doc 0 = 0"
  by (simp_all add: blockPosition_def)

lemma blockPosition_mono: "k \<le> k' \<Longrightarrow> blockPosition doc k \<le> blockPosition doc k'"
proof (induction doc arbitrary: k k')
  case Nil
  then show ?case by (simp add: blockPosition_def)
next
  case (Cons b bs)
  show ?case
  proof (cases k)
    case 0
    have "0 \<le> blockPosition (b # bs) k'"
      unfolding blockPosition_def using blockLength_pos
      by (intro sum_list_nonneg) (auto intro: less_imp_le)
    with 0 show ?thesis by (simp add: blockPosition_Cons)
  next
    case (Suc j)
    with Cons.prems obtain j' where j': "k' = Suc j'" "j \<le> j'" by (cases k') auto
    with Suc Cons.IH [of j j'] show ?thesis by (simp add: blockPosition_Cons)
  qed
qed

lemma findNode_Some:
  "0 \<le> pos \<Longrightarrow> pos < documentCharacterCount doc \<Longrightarrow>
   \<exists>k. findNode doc pos = Some k \<and> k < length doc \<and>
       blockPosition doc k \<le> pos \<and> pos < blockPosition doc (Suc k)"
proof (induction doc arbitrary: pos)
  case Nil
  then show ?case by (simp add: documentCharacterCount_def)
next
  case (Cons b bs)
  show ?case
  proof (cases "pos < blockLength b")
    case True
    with Cons.prems show ?thesis
      by (intro exI [of _ 0]) (simp add: blockPosition_def)
  next
    case False
    with Cons.prems have "0 \<le> pos - blockLength b" "pos - blockLength b < documentCharacterCount bs"
      by (simp_all add: documentCharacterCount_def)
    from Cons.IH [OF this] obtain k where k: "findNode bs (pos - blockLength b) = Some k"
      "k < length bs" "blockPosition bs k \<le> pos - blockLength b"
      "pos - blockLength b < blockPosition bs (Suc k)" by blast
    with False show ?thesis
      by (intro exI [of _ "Suc k"]) (simp add: blockPosition_Cons)
  qed
qed

lemma selectedLoop_run:
  "i \<le> j \<Longrightarrow> j < length doc \<Longrightarrow> m = j - i \<Longrightarrow>
   selectedLoop Q doc (Block i) (nextBlock doc (Block j)) c =
     Some (c + int (length (filter
       (\<lambda>k. userData (doc ! k) \<noteq> None \<and> nonBlank Q (doc ! k)) [i..<Suc j])))"
proof (induction m arbitrary: i c)
  case 0
  then have e: "i = j" by simp
  let ?e = "nextBlock doc (Block j)"
  have ne: "Block j \<noteq> ?e" using 0 by (simp add: nextBlock_def)
  have stop: "selectedLoop Q doc ?e ?e c' = Some c'" for c'
    by (subst selectedLoop.simps) simp
  show ?case
    unfolding e using ne 0(2)
    by (subst selectedLoop.simps) (simp add: stop userDataOf_def textOf_def nonBlank_def)
next
  case (Suc m)
  then have lt: "i < j" "Suc i \<le> j" "m = j - Suc i" by simp_all
  let ?e = "nextBlock doc (Block j)"
  have ne: "Block i \<noteq> ?e" using Suc.prems lt by (simp add: nextBlock_def)
  have nx: "nextBlock doc (Block i) = Block (Suc i)"
    using lt Suc.prems by (simp add: nextBlock_def)
  have il: "i < length doc" using lt Suc.prems by simp
  have up: "[i..<Suc j] = i # [Suc i..<Suc j]"
    using lt by (simp add: upt_conv_Cons)
  show ?case
    using ne il
    by (subst selectedLoop.simps)
      (simp add: nx Suc.IH [OF lt(2) Suc.prems(2) lt(3)] up userDataOf_def textOf_def nonBlank_def
        del: upt_Suc)
qed

lemma filter_interval:
  assumes "i \<le> j" "j < n"
  shows "filter (\<lambda>k. i \<le> k \<and> k \<le> j) [0..<n] = [i..<Suc j]"
proof -
  have 1: "[0..<Suc j] = [0..<i] @ [i..<Suc j]"
    using upt_add_eq_append [of 0 i "Suc j - i"] assms by simp
  have 2: "[0..<n] = [0..<Suc j] @ [Suc j..<n]"
    using upt_add_eq_append [of 0 "Suc j" "n - Suc j"] assms by simp
  have a: "filter (\<lambda>k. i \<le> k \<and> k \<le> j) [0..<i] = []"
    by (auto simp: filter_empty_conv)
  have b: "filter (\<lambda>k. i \<le> k \<and> k \<le> j) [i..<Suc j] = [i..<Suc j]"
    by (rule filter_True) auto
  have c: "filter (\<lambda>k. i \<le> k \<and> k \<le> j) [Suc j..<n] = []"
    by (auto simp: filter_empty_conv)
  show ?thesis unfolding 2 1 filter_append a b c by simp
qed

lemma loopVisits_interval:
  assumes i: "i < length doc" "blockPosition doc i \<le> a" "a < blockPosition doc (Suc i)"
    and j: "j < length doc" "blockPosition doc j \<le> b" "b < blockPosition doc (Suc j)"
  shows "loopVisits doc a b k \<longleftrightarrow> i \<le> k \<and> k \<le> j"
proof
  assume o: "loopVisits doc a b k"
  then have 1: "blockPosition doc k \<le> b" and 2: "a < blockPosition doc (Suc k)"
    by (simp_all add: loopVisits_def)
  have "k \<le> j"
  proof (rule ccontr)
    assume "\<not> k \<le> j"
    then have "Suc j \<le> k" by simp
    from blockPosition_mono [OF this, of doc] 1 j(3) show False by simp
  qed
  moreover have "i \<le> k"
  proof (rule ccontr)
    assume "\<not> i \<le> k"
    then have "Suc k \<le> i" by simp
    from blockPosition_mono [OF this, of doc] 2 i(2) show False by simp
  qed
  ultimately show "i \<le> k \<and> k \<le> j" by simp
next
  assume "i \<le> k \<and> k \<le> j"
  then have "Suc i \<le> Suc k" "k \<le> j" by simp_all
  from blockPosition_mono [OF this(1), of doc] blockPosition_mono [OF this(2), of doc] i(3) j(2)
  show "loopVisits doc a b k" by (simp add: loopVisits_def)
qed

lemma selectedLoop_selection:
  assumes "0 \<le> a" "a \<le> b" "b < documentCharacterCount doc"
  shows "selectedLoop Q doc (findBlock doc a) (nextBlock doc (findBlock doc b)) 0 =
    Some (int (length (filter (loopCounted Q doc a b) [0..<length doc])))"
proof -
  from assms have a: "0 \<le> a" "a < documentCharacterCount doc" and b: "0 \<le> b" by simp_all
  from findNode_Some [OF a] obtain i where i: "findNode doc a = Some i" "i < length doc"
    "blockPosition doc i \<le> a" "a < blockPosition doc (Suc i)" by blast
  from findNode_Some [OF b assms(3)] obtain j where j: "findNode doc b = Some j" "j < length doc"
    "blockPosition doc j \<le> b" "b < blockPosition doc (Suc j)" by blast
  have ov: "loopVisits doc a b k \<longleftrightarrow> i \<le> k \<and> k \<le> j" for k
    by (rule loopVisits_interval [OF i(2-4) j(2-4)])
  have ij: "i \<le> j" using ov [of i] i(3,4) assms(2) by (simp add: loopVisits_def)
  have "filter (loopCounted Q doc a b) [0..<length doc] =
      filter (\<lambda>k. userData (doc ! k) \<noteq> None \<and> nonBlank Q (doc ! k))
        (filter (\<lambda>k. i \<le> k \<and> k \<le> j) [0..<length doc])"
    unfolding filter_filter by (rule filter_cong) (auto simp: loopCounted_def ov)
  also have "\<dots> = filter (\<lambda>k. userData (doc ! k) \<noteq> None \<and> nonBlank Q (doc ! k)) [i..<Suc j]"
    by (simp only: filter_interval [OF ij j(2)])
  finally have f: "filter (loopCounted Q doc a b) [0..<length doc] =
      filter (\<lambda>k. userData (doc ! k) \<noteq> None \<and> nonBlank Q (doc ! k)) [i..<Suc j]" .
  have fb: "findBlock doc a = Block i" "findBlock doc b = Block j"
    using a b i(1) j(1) by (simp_all add: findBlock_def)
  show ?thesis
    unfolding fb f using selectedLoop_run [OF ij j(2) refl, of Q 0] by simp
qed

lemma onTextSelected_returns:
  assumes c: "boundaryContract Q"
    and r: "0 \<le> selectionStart" "selectionStart \<le> selectionEnd"
      "selectionEnd < documentCharacterCount (document d)"
  shows "\<exists>sigs. onTextSelected Q d selectedText selectionStart selectionEnd = Some (d, sigs) \<and>
    published characterCountChanged sigs = [int (length selectedText)] \<and>
    published paragraphCountChanged sigs =
      [int (length (filter (loopCounted Q (document d) selectionStart selectionEnd)
              [0..<length (document d)]))]"
proof -
  obtain n where n: "countSentences Q selectedText = Some n"
    using countSentences_steps [OF c, of selectedText] by blast
  obtain w l a where w: "countWords Q selectedText = (w, l, a)"
    by (cases "countWords Q selectedText")
  show ?thesis
    by (simp add: onTextSelected_def n w Let_def selectedLoop_selection [OF r] published_def)
qed

lemma onTextSelected_frame:
  "onTextSelected Q d selectedText selectionStart selectionEnd = Some (d', sigs) \<Longrightarrow>
   d' = d \<and> published characterCountChanged sigs = [int (length selectedText)]"
  by (auto simp: onTextSelected_def Let_def published_def split: option.splits prod.splits)

lemma length_filter_disjoint:
  "\<forall>x\<in>set xs. \<not> (P x \<and> R x) \<Longrightarrow>
   length (filter (\<lambda>x. P x \<or> R x) xs) = length (filter P xs) + length (filter R xs)"
  by (induction xs) auto

text \<open>
  The loop counts every selected paragraph, and one paragraph more when the selection
  ends at the first position of a paragraph that has a cache entry and non-empty
  trimmed text.
\<close>

lemma loopCounted_excess:
  assumes "selectionStart \<le> selectionEnd"
  shows "length (filter (loopCounted Q doc selectionStart selectionEnd) [0..<length doc]) =
    length (filter (selectionCounted Q doc selectionStart selectionEnd) [0..<length doc]) +
    length (filter (\<lambda>k. blockPosition doc k = selectionEnd \<and>
                userData (doc ! k) \<noteq> None \<and> nonBlank Q (doc ! k)) [0..<length doc])"
proof -
  let ?extra = "\<lambda>k. blockPosition doc k = selectionEnd \<and>
                userData (doc ! k) \<noteq> None \<and> nonBlank Q (doc ! k)"
  have grow: "blockPosition doc k < blockPosition doc (Suc k)" if "k < length doc" for k
    using that blockLength_pos [of "doc ! k"]
    by (simp add: blockPosition_def take_Suc_conv_app_nth)
  have split: "loopCounted Q doc selectionStart selectionEnd k \<longleftrightarrow>
      selectionCounted Q doc selectionStart selectionEnd k \<or> ?extra k"
    if "k \<in> set [0..<length doc]" for k
    using that assms grow [of k]
    by (auto simp: loopCounted_def loopVisits_def selectionCounted_def overlapsSelection_def)
  have "filter (loopCounted Q doc selectionStart selectionEnd) [0..<length doc] =
      filter (\<lambda>k. selectionCounted Q doc selectionStart selectionEnd k \<or> ?extra k)
        [0..<length doc]"
    by (rule filter_cong) (simp_all only: split)
  moreover have "\<forall>k\<in>set [0..<length doc].
      \<not> (selectionCounted Q doc selectionStart selectionEnd k \<and> ?extra k)"
    by (auto simp: selectionCounted_def overlapsSelection_def)
  ultimately show ?thesis by (simp only: length_filter_disjoint)
qed

text \<open>
  C5 does not hold on the code at the end of the selection range. The loop of
  \<open>onTextSelected\<close> runs up to the paragraph that holds the position \<open>selectionEnd\<close>, also
  when the selection ends at the first position of that paragraph and no character of
  it is selected. In the document of the two paragraphs \<open>One.\<close> and \<open>Two.\<close>, after a
  whole-document recompute, with the first paragraph and its separator selected
  (positions 0 to 5), the published paragraph count is 2, and the paragraphs that
  overlap the selection range, have a cache entry and have non-empty trimmed text are 1.
  The comment in the code says that the loop counts the selected paragraphs. The other
  part of C5 holds: for a document whose only paragraph was never visited, selecting
  \<open>hello\<close> publishes the paragraph count 0.
\<close>

theorem selected_paragraph_count_at_boundary:
  "map_option fst
     (onTextChanged asciiQt
       (DocumentStatistics
         [\<lparr>blockText = ''One.'', userData = None\<rparr>,
          \<lparr>blockText = ''Two.'', userData = None\<rparr>]) 0 0 0) =
     Some
       \<lparr>document =
          [\<lparr>blockText = ''One.'',
            userData = Some \<lparr>bd_wordCount = 1, bd_lixLongWordCount = 0,
              bd_alphaNumericCharacterCount = 3, bd_sentenceCount = 1\<rparr>\<rparr>,
           \<lparr>blockText = ''Two.'',
            userData = Some \<lparr>bd_wordCount = 1, bd_lixLongWordCount = 0,
              bd_alphaNumericCharacterCount = 3, bd_sentenceCount = 1\<rparr>\<rparr>],
        d_wordCount = 2, d_totalWordCount = 0, d_wordCharacterCount = 6,
        d_sentenceCount = 2, d_paragraphCount = 2, d_pageCount = 0,
        d_lixLongWordCount = 0, d_readTimeMinutes = 0\<rparr> \<and>
   map_option (published paragraphCountChanged \<circ> snd)
     (onTextSelected asciiQt
       \<lparr>document =
          [\<lparr>blockText = ''One.'',
            userData = Some \<lparr>bd_wordCount = 1, bd_lixLongWordCount = 0,
              bd_alphaNumericCharacterCount = 3, bd_sentenceCount = 1\<rparr>\<rparr>,
           \<lparr>blockText = ''Two.'',
            userData = Some \<lparr>bd_wordCount = 1, bd_lixLongWordCount = 0,
              bd_alphaNumericCharacterCount = 3, bd_sentenceCount = 1\<rparr>\<rparr>],
        d_wordCount = 2, d_totalWordCount = 0, d_wordCharacterCount = 6,
        d_sentenceCount = 2, d_paragraphCount = 2, d_pageCount = 0,
        d_lixLongWordCount = 0, d_readTimeMinutes = 0\<rparr>
       [CHR ''O'', CHR ''n'', CHR ''e'', CHR ''.'', CHR 0x0A] 0 5) =
     Some [2] \<and>
   length (filter
     (selectionCounted asciiQt
        [\<lparr>blockText = ''One.'',
          userData = Some \<lparr>bd_wordCount = 1, bd_lixLongWordCount = 0,
            bd_alphaNumericCharacterCount = 3, bd_sentenceCount = 1\<rparr>\<rparr>,
         \<lparr>blockText = ''Two.'',
          userData = Some \<lparr>bd_wordCount = 1, bd_lixLongWordCount = 0,
            bd_alphaNumericCharacterCount = 3, bd_sentenceCount = 1\<rparr>\<rparr>] 0 5)
     [0..<2]) = 1 \<and>
   map_option (published paragraphCountChanged \<circ> snd)
     (onTextSelected asciiQt
       (DocumentStatistics [\<lparr>blockText = ''hello world'', userData = None\<rparr>]) ''hello'' 0 5) =
     Some [0]"
proof (intro conjI)
  show "map_option fst
     (onTextChanged asciiQt
       (DocumentStatistics
         [\<lparr>blockText = ''One.'', userData = None\<rparr>,
          \<lparr>blockText = ''Two.'', userData = None\<rparr>]) 0 0 0) =
     Some
       \<lparr>document =
          [\<lparr>blockText = ''One.'',
            userData = Some \<lparr>bd_wordCount = 1, bd_lixLongWordCount = 0,
              bd_alphaNumericCharacterCount = 3, bd_sentenceCount = 1\<rparr>\<rparr>,
           \<lparr>blockText = ''Two.'',
            userData = Some \<lparr>bd_wordCount = 1, bd_lixLongWordCount = 0,
              bd_alphaNumericCharacterCount = 3, bd_sentenceCount = 1\<rparr>\<rparr>],
        d_wordCount = 2, d_totalWordCount = 0, d_wordCharacterCount = 6,
        d_sentenceCount = 2, d_paragraphCount = 2, d_pageCount = 0,
        d_lixLongWordCount = 0, d_readTimeMinutes = 0\<rparr>"
    by (simp add: doc_eval cw_eval ascii_eval calculatePageCount_def calculateReadingTime_def
        signed_divide_int_def)
  show "map_option (published paragraphCountChanged \<circ> snd)
     (onTextSelected asciiQt
       \<lparr>document =
          [\<lparr>blockText = ''One.'',
            userData = Some \<lparr>bd_wordCount = 1, bd_lixLongWordCount = 0,
              bd_alphaNumericCharacterCount = 3, bd_sentenceCount = 1\<rparr>\<rparr>,
           \<lparr>blockText = ''Two.'',
            userData = Some \<lparr>bd_wordCount = 1, bd_lixLongWordCount = 0,
              bd_alphaNumericCharacterCount = 3, bd_sentenceCount = 1\<rparr>\<rparr>],
        d_wordCount = 2, d_totalWordCount = 0, d_wordCharacterCount = 6,
        d_sentenceCount = 2, d_paragraphCount = 2, d_pageCount = 0,
        d_lixLongWordCount = 0, d_readTimeMinutes = 0\<rparr>
       [CHR ''O'', CHR ''n'', CHR ''e'', CHR ''.'', CHR 0x0A] 0 5) =
     Some [2]"
    by (simp add: doc_eval cw_eval ascii_eval)
  show "length (filter
     (selectionCounted asciiQt
        [\<lparr>blockText = ''One.'',
          userData = Some \<lparr>bd_wordCount = 1, bd_lixLongWordCount = 0,
            bd_alphaNumericCharacterCount = 3, bd_sentenceCount = 1\<rparr>\<rparr>,
         \<lparr>blockText = ''Two.'',
          userData = Some \<lparr>bd_wordCount = 1, bd_lixLongWordCount = 0,
            bd_alphaNumericCharacterCount = 3, bd_sentenceCount = 1\<rparr>\<rparr>] 0 5)
     [0..<2]) = 1"
    by (simp add: selection_eval ascii_eval upt_conv_Cons)
  show "map_option (published paragraphCountChanged \<circ> snd)
     (onTextSelected asciiQt
       (DocumentStatistics [\<lparr>blockText = ''hello world'', userData = None\<rparr>]) ''hello'' 0 5) =
     Some [0]"
    by (simp add: doc_eval cw_eval ascii_eval)
qed

text \<open>
  C10: a selection event inside the document, with a boundary finder that keeps its
  contract, returns and leaves the state as it was: every stored field, and so every
  accessor, has the value it had before.
\<close>

theorem onTextSelected_keeps_state:
  assumes "boundaryContract Q" "0 \<le> selectionStart" "selectionStart \<le> selectionEnd"
    "selectionEnd < documentCharacterCount (document d)"
  shows "\<exists>d' sigs.
    onTextSelected Q d selectedText selectionStart selectionEnd = Some (d', sigs) \<and>
    d' = d \<and> wordCount d' = wordCount d \<and> sentenceCount d' = sentenceCount d \<and>
    paragraphCount d' = paragraphCount d \<and> pageCount d' = pageCount d \<and>
    readingTime d' = readingTime d \<and> characterCount d' = characterCount d"
  using onTextSelected_returns [OF assms, of selectedText] by blast

theorem onTextSelected_keeps_state_witness:
  "boundaryContract asciiQt \<and> (0::int) \<le> 4 \<and> (4::int) \<le> 9 \<and>
   9 < documentCharacterCount
         [\<lparr>blockText = ''The quick brown fox.'', userData = None\<rparr>] \<and>
   (\<exists>d' sigs.
      onTextSelected asciiQt
        \<lparr>document = [\<lparr>blockText = ''The quick brown fox.'', userData = None\<rparr>],
         d_wordCount = 4, d_totalWordCount = 0, d_wordCharacterCount = 16,
         d_sentenceCount = 1, d_paragraphCount = 1, d_pageCount = 0,
         d_lixLongWordCount = 0, d_readTimeMinutes = 0\<rparr>
        ''quick'' 4 9 = Some (d', sigs) \<and>
      wordCount d' = 4 \<and> sentenceCount d' = 1 \<and> paragraphCount d' = 1 \<and>
      published wordCountChanged sigs = [1])"
proof -
  let ?d = "\<lparr>document = [\<lparr>blockText = ''The quick brown fox.'', userData = None\<rparr>],
         d_wordCount = 4, d_totalWordCount = 0, d_wordCharacterCount = 16,
         d_sentenceCount = 1, d_paragraphCount = 1, d_pageCount = 0,
         d_lixLongWordCount = 0, d_readTimeMinutes = 0\<rparr>"
  have r: "(0::int) \<le> 4" "(4::int) \<le> 9" "9 < documentCharacterCount (document ?d)"
    by (simp_all add: selection_eval)
  from onTextSelected_keeps_state [OF asciiQt_contract r, of "''quick''"]
  obtain d' sigs where s: "onTextSelected asciiQt ?d ''quick'' 4 9 = Some (d', sigs)"
    "wordCount d' = wordCount ?d" "sentenceCount d' = sentenceCount ?d"
    "paragraphCount d' = paragraphCount ?d"
    by blast
  have ev: "map_option (published wordCountChanged \<circ> snd)
      (onTextSelected asciiQt ?d ''quick'' 4 9) = Some [1]"
    by (simp add: doc_eval cw_eval ascii_eval)
  with s(1) have p: "published wordCountChanged sigs = [1]" by simp
  have f: "wordCount d' = 4" "sentenceCount d' = 1" "paragraphCount d' = 1"
    using s(2-4) by (simp_all add: wordCount_def sentenceCount_def paragraphCount_def)
  from asciiQt_contract r(3) s(1) f p show ?thesis by auto
qed

text \<open>
  C2, as the code has it: every batch of \<open>updateStatistics\<close> (after a content change, a
  clearing of the document or the end of a selection) publishes each of the ten metrics
  once, and the character count in it is the character count of the document minus
  one, whatever the character classes and the boundary finder are. The batch of a
  selection event publishes the length of the selected text as the character count.
\<close>

theorem character_count_published:
  assumes "boundaryContract Q"
  shows "published characterCountChanged (snd (updateStatistics d)) =
      [documentCharacterCount (document d) - 1] \<and>
    list_all (\<lambda>metric. length (published metric (snd (updateStatistics d))) = 1) allMetrics \<and>
    published characterCountChanged (snd (onTextDeselected d)) =
      [documentCharacterCount (document d) - 1] \<and>
    published characterCountChanged (snd (onCleared d)) =
      [documentCharacterCount (document d) - 1] \<and>
    (\<exists>d' sigs. onTextChanged Q d position charsRemoved charsAdded = Some (d', sigs) \<and>
       published characterCountChanged sigs = [documentCharacterCount (document d) - 1] \<and>
       list_all (\<lambda>metric. length (published metric sigs) = 1) allMetrics \<and>
       characterCount d' = documentCharacterCount (document d) - 1) \<and>
    (\<forall>d' sigs. onTextSelected Q d selectedText selectionStart selectionEnd = Some (d', sigs) \<longrightarrow>
       published characterCountChanged sigs = [int (length selectedText)])"
proof -
  have all: "list_all (\<lambda>metric. length (published metric (snd (updateStatistics x))) = 1) allMetrics"
    for x :: "'a DocumentStatisticsPrivate"
    by (simp add: allMetrics_def updateStatistics_def published_def Let_def)
  have 1: "published characterCountChanged (snd (updateStatistics d)) =
      [documentCharacterCount (document d) - 1]"
    by (rule published_updateStatistics)
  have 3: "published characterCountChanged (snd (onTextDeselected d)) =
      [documentCharacterCount (document d) - 1]"
    by (simp add: onTextDeselected_def published_updateStatistics)
  have 4: "published characterCountChanged (snd (onCleared d)) =
      [documentCharacterCount (document d) - 1]"
    by (simp add: onCleared_def published_updateStatistics)
  from onTextChanged_returns [OF assms, of d position charsRemoved charsAdded]
  obtain d2 where d2: "onTextChanged Q d position charsRemoved charsAdded = Some (updateStatistics d2)"
    "map blockText (document d2) = map blockText (document d)" by blast
  have cc: "documentCharacterCount (document d2) = documentCharacterCount (document d)"
    by (rule documentCharacterCount_text [OF d2(2)])
  let ?d' = "fst (updateStatistics d2)" and ?s = "snd (updateStatistics d2)"
  have a: "onTextChanged Q d position charsRemoved charsAdded = Some (?d', ?s)"
    using d2(1) by simp
  have b: "published characterCountChanged ?s = [documentCharacterCount (document d) - 1]"
    by (simp only: published_updateStatistics cc)
  have c: "characterCount ?d' = documentCharacterCount (document d) - 1"
    by (simp add: characterCount_def cc)
  from a b c all [of d2]
  have 5: "\<exists>d' sigs. onTextChanged Q d position charsRemoved charsAdded = Some (d', sigs) \<and>
       published characterCountChanged sigs = [documentCharacterCount (document d) - 1] \<and>
       list_all (\<lambda>metric. length (published metric sigs) = 1) allMetrics \<and>
       characterCount d' = documentCharacterCount (document d) - 1"
    by blast
  have 6: "\<forall>d' sigs. onTextSelected Q d selectedText selectionStart selectionEnd = Some (d', sigs) \<longrightarrow>
       published characterCountChanged sigs = [int (length selectedText)]"
    using onTextSelected_frame by blast
  from 1 all [of d] 3 4 5 6 show ?thesis by blast
qed

text \<open>
  C2 as stated does not hold for the batch of a selection event: with \<open>hello\<close> selected
  in the document \<open>hello world\<close> the published character count is 5, and the character
  count of the document minus one is 11.
\<close>

theorem character_count_selection_counterexample:
  "map_option (published characterCountChanged \<circ> snd)
     (onTextSelected asciiQt
       (DocumentStatistics [\<lparr>blockText = ''hello world'', userData = None\<rparr>]) ''hello'' 0 5) =
     Some [5] \<and>
   documentCharacterCount
     (document (DocumentStatistics [\<lparr>blockText = ''hello world'', userData = None\<rparr>])) - 1 = 11"
  by (simp add: doc_eval cw_eval ascii_eval documentCharacterCount_def)

theorem character_count_published_witness:
  "boundaryContract asciiQt \<and>
   (\<exists>d' sigs.
      onTextSelected asciiQt
        (DocumentStatistics [\<lparr>blockText = ''hello world'', userData = None\<rparr>]) ''hello'' 0 5 =
        Some (d', sigs) \<and>
      published characterCountChanged sigs = [5]) \<and>
   (\<exists>d' sigs.
      onTextChanged asciiQt
        (DocumentStatistics [\<lparr>blockText = ''hello world'', userData = None\<rparr>]) 0 0 0 =
        Some (d', sigs) \<and>
      published characterCountChanged sigs = [11])"
proof -
  let ?d = "DocumentStatistics [\<lparr>blockText = ''hello world'', userData = None\<rparr>]"
  note t = character_count_published [OF asciiQt_contract, of ?d 0 0 0 "''hello''" 0 5]
  have "onTextSelected asciiQt ?d ''hello'' 0 5 \<noteq> None"
    by (simp add: doc_eval cw_eval ascii_eval)
  then obtain d' sigs where s: "onTextSelected asciiQt ?d ''hello'' 0 5 = Some (d', sigs)"
    by (cases "onTextSelected asciiQt ?d ''hello'' 0 5") auto
  with t have "published characterCountChanged sigs = [int (length ''hello'')]" by blast
  then have 1: "published characterCountChanged sigs = [5]" by simp
  from t obtain d2 sigs2 where c: "onTextChanged asciiQt ?d 0 0 0 = Some (d2, sigs2)"
    "published characterCountChanged sigs2 = [documentCharacterCount (document ?d) - 1]"
    by blast
  from c(2) have 2: "published characterCountChanged sigs2 = [11]"
    by (simp add: selection_eval)
  from asciiQt_contract s 1 c(1) 2 show ?thesis by blast
qed

section \<open>The readability indices\<close>

lemma fpValue_nonneg_expo: "0 \<le> e \<Longrightarrow> fpValue (FP m e) = of_int (m * 2 ^ nat e)"
  by (simp add: fpValue_def powr_realpow [symmetric])

lemma fpValue_neg_expo: "e < 0 \<Longrightarrow> fpValue (FP m e) = of_int m / of_int (2 ^ nat (- e))"
proof -
  assume "e < 0"
  then have "(2::real) powr of_int e = 1 / 2 powr (real (nat (- e)))"
    by (simp add: powr_minus_divide [symmetric])
  then show ?thesis by (simp add: fpValue_def powr_realpow)
qed

lemma qCeil_ceiling: "qCeil x = \<lceil>fpValue x\<rceil>"
proof (cases x)
  case (FP m e)
  show ?thesis
  proof (cases "0 \<le> e")
    case True
    have "\<lceil>fpValue (FP m e)\<rceil> = \<lceil>(of_int (m * 2 ^ nat e) :: real)\<rceil>"
      by (simp only: fpValue_nonneg_expo [OF True])
    also have "\<dots> = m * 2 ^ nat e" by (rule ceiling_of_int)
    finally show ?thesis using True by (simp add: FP qCeil_def)
  next
    case False
    then have e: "e < 0" by simp
    show ?thesis
      unfolding FP fpValue_neg_expo [OF e] ceiling_divide_eq_div using e
      by (simp add: qCeil_def)
  qed
qed

text \<open>
  C7: \<open>calculateCLI\<close> is 0 when there are no words or no sentences, and it is never
  negative: with words and sentences it is the ceiling of the floating-point value of
  the formula, or 0 if that ceiling is negative. For one character, one word and one
  sentence the ceiling is -39 and the result is 0.
\<close>

theorem calculateCLI_floor:
  "(wds = 0 \<or> sentences = 0 \<longrightarrow> calculateCLI characters wds sentences = 0) \<and>
   0 \<le> calculateCLI characters wds sentences \<and>
   (0 < wds \<and> 0 < sentences \<longrightarrow>
      calculateCLI characters wds sentences =
        max 0 \<lceil>fpValue (cliExpression characters wds sentences)\<rceil>) \<and>
   \<lceil>fpValue (cliExpression 1 1 1)\<rceil> = - 39 \<and> calculateCLI 1 1 1 = 0"
proof -
  have neg: "qCeil (cliExpression 1 1 1) = - 39"
    by (simp add: cliExpression_def fp_eval)
  have "calculateCLI 1 1 1 = 0"
    by (simp add: calculateCLI_def neg)
  moreover have "\<lceil>fpValue (cliExpression 1 1 1)\<rceil> = - 39"
    using neg by (simp add: qCeil_ceiling)
  ultimately show ?thesis
    by (auto simp: calculateCLI_def Let_def qCeil_ceiling)
qed

theorem calculateCLI_floor_witness:
  "calculateCLI 5 0 3 = 0 \<and> calculateCLI 5 3 0 = 0 \<and> (0::int) < 1 \<and>
   calculateCLI 1 1 1 = max 0 (- 39) \<and> calculateCLI 500 100 5 = 13"
proof -
  note t = calculateCLI_floor [of 0 3 5] calculateCLI_floor [of 3 0 5]
    calculateCLI_floor [of 1 1 1]
  have "calculateCLI 500 100 5 = 13"
    by (simp add: calculateCLI_def cliExpression_def fp_eval)
  with t show ?thesis by simp
qed

text \<open>
  C6 as stated does not hold: the quotients are rounded to double precision before they
  are added. For 25 words, 7 of them long, in 25 sentences, \<open>7.0 / 25.0 * 100.0\<close> is
  \<open>28.000000000000004\<close> and \<open>calculateLIX\<close> is 30; the ceiling of the exact value
  \<open>25 / 25 + 100 * 7 / 25 = 29\<close> is 29.
\<close>

theorem calculateLIX_not_exact:
  "calculateLIX 25 7 25 = 30 \<and> \<lceil>(25::real) / 25 + 100 * 7 / 25\<rceil> = 29"
  by (simp add: calculateLIX_def lixExpression_def fp_eval)

subsection \<open>The accuracy of the rounded operations\<close>

lemma pow2_nat: "0 \<le> k \<Longrightarrow> 2 powr (of_int k) = (2::real) ^ nat k"
  by (simp add: powr_realpow [symmetric])

lemma fpValue_shift: "fpValue (FP m (e + k)) = fpValue (FP m e) * 2 powr (of_int k)"
  by (simp add: fpValue_def powr_add)

lemma bitLength_bounds:
  "0 < n \<Longrightarrow> 2 ^ (bitLength n - 1) \<le> n \<and> n < 2 ^ bitLength n"
proof (induction n rule: bitLength.induct)
  case (1 n)
  show ?case
  proof (cases "n div 2 = 0")
    case True
    with 1(2) have "n = 1" by (simp add: div_eq_0_iff) 
    then show ?thesis by (simp add: bitLength.simps)
  next
    case False
    with 1 have ih: "2 ^ (bitLength (n div 2) - 1) \<le> n div 2" "n div 2 < 2 ^ bitLength (n div 2)"
      by simp_all
    have bl: "bitLength n = Suc (bitLength (n div 2))"
      using 1(2) by (subst bitLength.simps) simp
    have pos: "0 < bitLength (n div 2)"
      using False by (subst bitLength.simps) simp
    then have "(2::nat) ^ bitLength (n div 2) = 2 * 2 ^ (bitLength (n div 2) - 1)"
      by (cases "bitLength (n div 2)") simp_all
    with ih show ?thesis unfolding bl by simp linarith
  qed
qed

lemma scaleBy_value:
  assumes "0 < d" "scaleBy n d e = (n', d')"
  shows "0 < d'" "real_of_int n' / real_of_int d' =
      (real_of_int n / real_of_int d) * 2 powr (- of_int e)"
proof -
  show "0 < d'" using assms by (auto simp: scaleBy_def split: if_splits)
  show "real_of_int n' / real_of_int d' = (real_of_int n / real_of_int d) * 2 powr (- of_int e)"
  proof (cases "0 \<le> e")
    case True
    then have "n' = n" "d' = d * 2 ^ nat e" using assms by (simp_all add: scaleBy_def)
    then show ?thesis using True by (simp add: powr_minus pow2_nat divide_simps)
  next
    case False
    then have "n' = n * 2 ^ nat (- e)" "d' = d" using assms by (simp_all add: scaleBy_def)
    moreover have "2 powr (- real_of_int e) = (2::real) ^ nat (- e)"
      using False pow2_nat [of "- e"] by simp
    ultimately show ?thesis by simp
  qed
qed

lemma roundHalfEven_error:
  assumes "0 < d"
  shows "\<bar>real_of_int (roundHalfEven n d) - real_of_int n / real_of_int d\<bar> \<le> 1 / 2"
proof -
  define q where "q = n div d"
  define r where "r = n mod d"
  have r: "0 \<le> r" "r < d" using assms by (simp_all add: r_def)
  have "n = d * q + r" by (simp add: q_def r_def)
  then have "real_of_int n = real_of_int d * real_of_int q + real_of_int r"
    by (metis of_int_add of_int_mult)
  then have nd: "real_of_int n / real_of_int d = real_of_int q + real_of_int r / real_of_int d"
    using assms by (simp add: field_simps)
  have f: "0 \<le> real_of_int r / real_of_int d" "real_of_int r / real_of_int d < 1"
    using r assms by simp_all
  consider "2 * r < d" | "d < 2 * r" | "2 * r = d" by linarith
  then show ?thesis
  proof cases
    case 1
    then have "roundHalfEven n d = q" by (simp add: roundHalfEven_def q_def r_def Let_def)
    moreover from 1 assms have "real_of_int r / real_of_int d < 1 / 2"
      by (simp add: field_simps)
    ultimately show ?thesis using f unfolding nd by simp
  next
    case 2
    then have "roundHalfEven n d = q + 1" by (simp add: roundHalfEven_def q_def r_def Let_def)
    moreover from 2 assms have "1 / 2 < real_of_int r / real_of_int d"
      by (simp add: field_simps)
    ultimately show ?thesis using f unfolding nd by simp
  next
    case 3
    then have "roundHalfEven n d = q \<or> roundHalfEven n d = q + 1"
      by (simp add: roundHalfEven_def q_def r_def Let_def)
    moreover from 3 assms have "real_of_int r / real_of_int d = 1 / 2"
      by (simp add: field_simps)
    ultimately show ?thesis unfolding nd by auto
  qed
qed

lemma pow2_cancel: "x * 2 powr (- a) * 2 powr a = (x::real)"
  by (simp add: mult.assoc powr_add [symmetric])

lemma pow2_neg: "e \<le> 0 \<Longrightarrow> 2 powr (of_int e) = 1 / (2::real) ^ nat (- e)"
proof -
  assume e: "e \<le> 0"
  have "(2::real) powr (of_int e) = 2 powr (- of_int (- e))" by simp
  also have "\<dots> = 1 / 2 powr (of_int (- e))" by (rule powr_minus_divide)
  also have "\<dots> = 1 / 2 ^ nat (- e)" using pow2_nat [of "- e"] e by simp
  finally show ?thesis .
qed

lemma floorLog2_le:
  assumes n: "0 < n" and d: "0 < d"
  shows "2 powr (of_int (floorLog2 n d)) \<le> real_of_int n / real_of_int d"
proof -
  define k where "k = int (bitLength (nat n)) - int (bitLength (nat d))"
  obtain n' d' where s: "scaleBy n d k = (n', d')" by (cases "scaleBy n d k")
  from scaleBy_value [OF d s]
  have d': "0 < d'" and v: "real_of_int n' / real_of_int d' =
      (real_of_int n / real_of_int d) * 2 powr (- of_int k)" by simp_all
  have fl: "floorLog2 n d = (if d' \<le> n' then k else k - 1)"
    by (simp add: floorLog2_def k_def [symmetric] s Let_def)
  show ?thesis
  proof (cases "d' \<le> n'")
    case True
    then have "1 \<le> real_of_int n' / real_of_int d'" using d' by simp
    then have "1 \<le> (real_of_int n / real_of_int d) * 2 powr (- of_int k)" unfolding v .
    then have "1 * 2 powr (of_int k) \<le>
        (real_of_int n / real_of_int d) * 2 powr (- of_int k) * 2 powr (of_int k)"
      by (rule mult_right_mono) simp
    then have "2 powr (of_int k) \<le> real_of_int n / real_of_int d"
      unfolding pow2_cancel by simp
    with True fl show ?thesis by simp
  next
    case False
    from bitLength_bounds [of "nat n"] n
    have "2 ^ (bitLength (nat n) - 1) \<le> nat n" by simp
    then have "real (2 ^ (bitLength (nat n) - 1)) \<le> real (nat n)" by (rule of_nat_mono)
    then have nb: "2 ^ (bitLength (nat n) - 1) \<le> real_of_int n" using n by simp
    from bitLength_bounds [of "nat d"] d
    have "nat d < 2 ^ bitLength (nat d)" by simp
    then have "real (nat d) < real (2 ^ bitLength (nat d))" by (simp only: of_nat_less_iff)
    then have db: "real_of_int d \<le> 2 ^ bitLength (nat d)" using d by simp
    have bp: "0 < bitLength (nat n)"
      using n by (subst bitLength.simps) simp
    have "real_of_int (k - 1) = real (bitLength (nat n) - 1) - real (bitLength (nat d))"
      using bp by (simp add: k_def of_nat_diff)
    then have "2 powr (of_int (k - 1)) =
        2 powr (real (bitLength (nat n) - 1) - real (bitLength (nat d)))"
      by (simp only:)
    also have "\<dots> = 2 ^ (bitLength (nat n) - 1) / 2 ^ bitLength (nat d)"
      by (simp add: powr_diff powr_realpow)
    also have "\<dots> \<le> real_of_int n / real_of_int d"
      using nb db d n by (intro frac_le) simp_all
    finally show ?thesis using False fl by simp
  qed
qed

lemma roundTo_error:
  assumes d: "0 < d"
  shows "\<bar>fpValue (roundTo p n d) - real_of_int n / real_of_int d\<bar> \<le>
    2 powr (- real p) * \<bar>real_of_int n / real_of_int d\<bar>"
proof (cases "n = 0")
  case True
  then show ?thesis by (simp add: roundTo_def fpValue_def)
next
  case False
  define E where "E = floorLog2 \<bar>n\<bar> d"
  define e where "e = E - (int p - 1)"
  obtain n' d' where s: "scaleBy n d e = (n', d')" by (cases "scaleBy n d e")
  from scaleBy_value [OF d s]
  have d': "0 < d'" and v: "real_of_int n' / real_of_int d' =
      (real_of_int n / real_of_int d) * 2 powr (- of_int e)" by simp_all
  define m where "m = roundHalfEven n' d'"
  have rt: "roundTo p n d = FP m e"
    using False by (simp add: roundTo_def E_def [symmetric] e_def [symmetric] s m_def Let_def)
  let ?x = "real_of_int n / real_of_int d"
  let ?s = "(2::real) powr (of_int e)"
  have sp: "0 < ?s" by simp
  have inv: "2 powr (- of_int e) * ?s = (1::real)"
    by (simp add: powr_add [symmetric])
  have "\<bar>real_of_int m - ?x * 2 powr (- of_int e)\<bar> \<le> 1 / 2"
    using roundHalfEven_error [OF d', of n'] unfolding m_def v .
  then have "\<bar>real_of_int m - ?x * 2 powr (- of_int e)\<bar> * ?s \<le> 1 / 2 * ?s"
    using sp by (intro mult_right_mono) simp_all
  moreover have "\<bar>real_of_int m - ?x * 2 powr (- of_int e)\<bar> * ?s =
      \<bar>real_of_int m * ?s - ?x\<bar>"
  proof -
    have "\<bar>real_of_int m - ?x * 2 powr (- of_int e)\<bar> * ?s =
        \<bar>(real_of_int m - ?x * 2 powr (- of_int e)) * ?s\<bar>"
      using sp by (simp add: abs_mult)
    also have "(real_of_int m - ?x * 2 powr (- of_int e)) * ?s =
        real_of_int m * ?s - ?x * (2 powr (- of_int e) * ?s)"
      by (simp add: algebra_simps)
    finally show ?thesis unfolding inv by simp
  qed
  ultimately have "\<bar>real_of_int m * ?s - ?x\<bar> \<le> 1 / 2 * ?s" by (simp only:)
  moreover have "fpValue (roundTo p n d) = real_of_int m * ?s" by (simp add: rt fpValue_def)
  ultimately have err: "\<bar>fpValue (roundTo p n d) - ?x\<bar> \<le> 1 / 2 * ?s" by (simp only:)
  have "0 < \<bar>n\<bar>" using False by simp
  from floorLog2_le [OF this d]
  have lo: "2 powr (of_int E) \<le> \<bar>?x\<bar>" using d by (simp add: E_def abs_divide [symmetric] del: abs_divide)
  have "1 / 2 * ?s = 2 powr (of_int e - 1)"
    by (simp add: powr_diff)
  also have "of_int e - (1::real) = of_int E + (- real p)"
    by (simp add: e_def)
  also have "2 powr (of_int E + (- real p)) = 2 powr (- real p) * 2 powr (of_int E)"
    using powr_add [of 2 "- real p" "of_int E"] by (simp only: add.commute)
  also have "\<dots> \<le> 2 powr (- real p) * \<bar>?x\<bar>"
    using lo by (intro mult_left_mono) simp_all
  finally show ?thesis using err by linarith
qed

lemma roundTo_int_exact:
  assumes "\<bar>i\<bar> < 2 ^ 53"
  shows "fpValue (roundTo 53 i 1) = real_of_int i"
proof (cases "i = 0")
  case True
  then show ?thesis by (simp add: roundTo_def fpValue_def)
next
  case False
  define E where "E = floorLog2 \<bar>i\<bar> 1"
  define e where "e = E - 52"
  have "0 < \<bar>i\<bar>" using False by simp
  from floorLog2_le [OF this, of 1]
  have "2 powr (of_int E) \<le> real_of_int \<bar>i\<bar>" by (simp add: E_def)
  also have "\<dots> < 2 ^ 53" using assms by (metis of_int_less_iff of_int_numeral of_int_power)
  also have "(2::real) ^ 53 = 2 powr (of_int 53)" by (simp add: powr_realpow [symmetric])
  finally have "E < 53" by (simp del: of_int_numeral)
  then have e: "e \<le> 0" by (simp add: e_def)
  have rhe: "roundHalfEven x 1 = x" for x by (simp add: roundHalfEven_def)
  have rt: "roundTo 53 i 1 = FP (i * 2 ^ nat (- e)) e"
    using False e
    by (cases "e = 0")
      (simp_all add: roundTo_def E_def [symmetric] e_def [symmetric] scaleBy_def rhe Let_def)
  show ?thesis by (simp add: rt fpValue_def pow2_neg [OF e])
qed

lemma scaled_error:
  assumes "\<bar>a - q\<bar> \<le> u * \<bar>q\<bar>" "0 < t" "0 \<le> u"
  shows "\<bar>a * t - q * t\<bar> \<le> u * \<bar>q * (t::real)\<bar>"
proof -
  have "\<bar>a * t - q * t\<bar> = \<bar>a - q\<bar> * t"
    using assms(2) by (simp add: left_diff_distrib [symmetric] abs_mult)
  also have "\<dots> \<le> (u * \<bar>q\<bar>) * t"
    using assms(1,2) by (intro mult_right_mono) simp_all
  also have "\<dots> = u * \<bar>q * t\<bar>"
    using assms(2) by (simp add: abs_mult)
  finally show ?thesis .
qed

lemma fpValue_zero_iff: "fpValue (FP m e) = 0 \<longleftrightarrow> m = 0"
  by (simp add: fpValue_def)

lemma fpDiv_error:
  assumes "fpValue y \<noteq> 0"
  shows "\<bar>fpValue (fpDiv p x y) - fpValue x / fpValue y\<bar> \<le>
    2 powr (- real p) * \<bar>fpValue x / fpValue y\<bar>"
proof -
  obtain m1 e1 where x: "x = FP m1 e1" by (cases x)
  obtain m2 e2 where y: "y = FP m2 e2" by (cases y)
  from assms have m2: "m2 \<noteq> 0" by (simp add: y fpValue_zero_iff)
  obtain m e where r: "roundTo p (sgn m2 * m1) \<bar>m2\<bar> = FP m e"
    by (cases "roundTo p (sgn m2 * m1) \<bar>m2\<bar>")
  let ?t = "(2::real) powr (of_int (e1 - e2))"
  let ?q = "real_of_int m1 / real_of_int m2"
  have q: "real_of_int (sgn m2 * m1) / real_of_int \<bar>m2\<bar> = ?q"
    using m2 by (cases "0 < m2") (simp_all add: sgn_if)
  have "0 < \<bar>m2\<bar>" using m2 by simp
  from roundTo_error [OF this, of p "sgn m2 * m1"]
  have e: "\<bar>fpValue (FP m e) - ?q\<bar> \<le> 2 powr (- real p) * \<bar>?q\<bar>"
    unfolding r q .
  have res: "fpValue (fpDiv p x y) = fpValue (FP m e) * ?t"
    using fpValue_shift [of m e "e1 - e2"] by (simp add: fpDiv_def x y r add_diff_eq)
  have ex: "fpValue x / fpValue y = ?q * ?t"
    by (simp add: x y fpValue_def powr_diff)
  show ?thesis
    unfolding res ex by (rule scaled_error [OF e]) simp_all
qed

lemma fpMul_error:
  "\<bar>fpValue (fpMul p x y) - fpValue x * fpValue y\<bar> \<le>
    2 powr (- real p) * \<bar>fpValue x * fpValue y\<bar>"
proof -
  obtain m1 e1 where x: "x = FP m1 e1" by (cases x)
  obtain m2 e2 where y: "y = FP m2 e2" by (cases y)
  obtain m e where r: "roundTo p (m1 * m2) 1 = FP m e"
    by (cases "roundTo p (m1 * m2) 1")
  let ?t = "(2::real) powr (of_int (e1 + e2))"
  let ?q = "real_of_int (m1 * m2)"
  from roundTo_error [of 1 p "m1 * m2"]
  have e: "\<bar>fpValue (FP m e) - ?q\<bar> \<le> 2 powr (- real p) * \<bar>?q\<bar>"
    unfolding r by simp
  have res: "fpValue (fpMul p x y) = fpValue (FP m e) * ?t"
    using fpValue_shift [of m e "e1 + e2"] by (simp add: fpMul_def x y r add.assoc)
  have ex: "fpValue x * fpValue y = ?q * ?t"
    by (simp add: x y fpValue_def powr_add)
  show ?thesis
    unfolding res ex by (rule scaled_error [OF e]) simp_all
qed

lemma fpAdd_error:
  "\<bar>fpValue (fpAdd p x y) - (fpValue x + fpValue y)\<bar> \<le>
    2 powr (- real p) * \<bar>fpValue x + fpValue y\<bar>"
proof -
  obtain m1 e1 where x: "x = FP m1 e1" by (cases x)
  obtain m2 e2 where y: "y = FP m2 e2" by (cases y)
  define e0 where "e0 = min e1 e2"
  define N where "N = m1 * 2 ^ nat (e1 - e0) + m2 * 2 ^ nat (e2 - e0)"
  obtain m e where r: "roundTo p N 1 = FP m e" by (cases "roundTo p N 1")
  let ?t = "(2::real) powr (of_int e0)"
  from roundTo_error [of 1 p N]
  have e: "\<bar>fpValue (FP m e) - real_of_int N\<bar> \<le> 2 powr (- real p) * \<bar>real_of_int N\<bar>"
    unfolding r by simp
  have res: "fpValue (fpAdd p x y) = fpValue (FP m e) * ?t"
    using fpValue_shift [of m e e0]
    by (simp add: fpAdd_def x y e0_def [symmetric] N_def [symmetric] r Let_def)
  have p1: "(2::real) ^ nat (e1 - e0) * ?t = 2 powr (of_int e1)"
  proof -
    have "(2::real) ^ nat (e1 - e0) = 2 powr (of_int (e1 - e0))"
      by (rule pow2_nat [symmetric]) (simp add: e0_def)
    then show ?thesis by (simp add: powr_add [symmetric])
  qed
  have p2: "(2::real) ^ nat (e2 - e0) * ?t = 2 powr (of_int e2)"
  proof -
    have "(2::real) ^ nat (e2 - e0) = 2 powr (of_int (e2 - e0))"
      by (rule pow2_nat [symmetric]) (simp add: e0_def)
    then show ?thesis by (simp add: powr_add [symmetric])
  qed
  have "real_of_int N * ?t =
      real_of_int m1 * (2 ^ nat (e1 - e0) * ?t) + real_of_int m2 * (2 ^ nat (e2 - e0) * ?t)"
    by (simp add: N_def algebra_simps)
  then have ex: "fpValue x + fpValue y = real_of_int N * ?t"
    unfolding p1 p2 by (simp add: x y fpValue_def)
  show ?thesis
    unfolding res ex by (rule scaled_error [OF e]) simp_all
qed

lemma ceiling_close:
  assumes "\<bar>a - b\<bar> \<le> (1::real)"
  shows "\<bar>\<lceil>a\<rceil> - \<lceil>b\<rceil>\<bar> \<le> 1"
proof -
  from assms have 1: "a \<le> b + 1" and 2: "b \<le> a + 1" by linarith+
  from ceiling_mono [OF 1] have "\<lceil>a\<rceil> \<le> \<lceil>b\<rceil> + 1" by simp
  moreover from ceiling_mono [OF 2] have "\<lceil>b\<rceil> \<le> \<lceil>a\<rceil> + 1" by simp
  ultimately show ?thesis by linarith
qed

lemma toDouble_exact: "\<bar>i\<bar> < 2 ^ 31 \<Longrightarrow> fpValue (toDouble i) = real_of_int i"
  unfolding toDouble_def by (rule roundTo_int_exact) simp

lemma lixExpression_error:
  assumes tw: "0 < totalWords" "totalWords < 2 ^ 31"
    and s: "0 < sentences" "sentences < 2 ^ 31"
    and lw: "0 \<le> longWords" "longWords \<le> totalWords"
  shows "\<bar>fpValue (lixExpression totalWords longWords sentences) -
      (real_of_int totalWords / real_of_int sentences +
       100 * real_of_int longWords / real_of_int totalWords)\<bar> \<le> 1 / 2 ^ 20"
proof -
  let ?T = "real_of_int totalWords" and ?S = "real_of_int sentences"
    and ?L = "real_of_int longWords"
  define u :: real where "u = 2 powr (- real 53)"
  have u: "u = 1 / 2 ^ 53" by (simp add: u_def powr_minus_divide powr_realpow [symmetric])
  define Afp where "Afp = fpDiv 53 (toDouble totalWords) (toDouble sentences)"
  define Bfp where "Bfp = fpDiv 53 (toDouble longWords) (toDouble totalWords)"
  define Cfp where "Cfp = fpMul 53 Bfp (doubleLiteral 100 1)"
  define A where "A = fpValue Afp"
  define B where "B = fpValue Bfp"
  define C where "C = fpValue Cfp"
  define R where "R = fpValue (fpAdd 53 Afp Cfp)"
  have vT: "fpValue (toDouble totalWords) = ?T" using tw by (intro toDouble_exact) simp
  have vS: "fpValue (toDouble sentences) = ?S" using s by (intro toDouble_exact) simp
  have vL: "fpValue (toDouble longWords) = ?L" using lw tw by (intro toDouble_exact) simp
  have vH: "fpValue (doubleLiteral 100 1) = 100"
    unfolding doubleLiteral_def using roundTo_int_exact [of 100] by simp
  have u0: "0 \<le> u" "u \<le> 1 / 1000" by (simp_all add: u)
  have T: "1 \<le> ?T" "?T \<le> 2147483648" using tw by simp_all
  have S: "1 \<le> ?S" using s by simp
  have L: "0 \<le> ?L" "?L \<le> ?T" using lw by simp_all
  define q1 where "q1 = ?T / ?S"
  define q2 where "q2 = ?L / ?T"
  have q1: "0 \<le> q1" "q1 \<le> 2147483648"
  proof -
    show "0 \<le> q1" using T S by (simp add: q1_def)
    have "?T / ?S \<le> ?T / 1" using T S by (intro divide_left_mono) simp_all
    with T show "q1 \<le> 2147483648" by (simp add: q1_def)
  qed
  have q2: "0 \<le> q2" "q2 \<le> 1" using L T by (simp_all add: q2_def)
  have eA: "\<bar>A - q1\<bar> \<le> u * \<bar>q1\<bar>"
    using fpDiv_error [of "toDouble sentences" 53 "toDouble totalWords"] S
    by (simp add: A_def Afp_def vT vS u_def q1_def)
  have "u * \<bar>q1\<bar> \<le> u * 2147483648"
    using q1 u0 by (intro mult_left_mono) simp_all
  with eA have eA': "\<bar>A - q1\<bar> \<le> u * 2147483648" by linarith
  have eB: "\<bar>B - q2\<bar> \<le> u * \<bar>q2\<bar>"
    using fpDiv_error [of "toDouble totalWords" 53 "toDouble longWords"] T
    by (simp add: B_def Bfp_def vT vL u_def q2_def)
  have "u * \<bar>q2\<bar> \<le> u * 1"
    using q2 u0 by (intro mult_left_mono) simp_all
  with eB have eB': "\<bar>B - q2\<bar> \<le> u" by linarith
  with q2 u0 have bB: "\<bar>B * 100\<bar> \<le> 200" by linarith
  have eC: "\<bar>C - B * 100\<bar> \<le> u * \<bar>B * 100\<bar>"
    using fpMul_error [of 53 Bfp "doubleLiteral 100 1"]
    by (simp add: C_def Cfp_def B_def vH u_def)
  have "u * \<bar>B * 100\<bar> \<le> u * 200"
    using bB u0 by (intro mult_left_mono) simp_all
  with eC have eC': "\<bar>C - B * 100\<bar> \<le> u * 200" by linarith
  have eC'': "\<bar>C - 100 * q2\<bar> \<le> u * 300"
    using eC' eB' by linarith
  have eR: "\<bar>R - (A + C)\<bar> \<le> u * \<bar>A + C\<bar>"
    using fpAdd_error [of 53 Afp Cfp] by (simp add: R_def A_def C_def u_def)
  have "\<bar>A + C\<bar> \<le> 4294967296"
    using eA' eC'' q1 q2 u0 by linarith
  then have "u * \<bar>A + C\<bar> \<le> u * 4294967296"
    using u0 by (intro mult_left_mono) simp_all
  with eR have eR': "\<bar>R - (A + C)\<bar> \<le> u * 4294967296" by linarith
  have "\<bar>R - (q1 + 100 * q2)\<bar> \<le> u * 8589934592"
    using eR' eA' eC'' u0 by linarith
  moreover have "u * 8589934592 = 1 / 2 ^ 20" by (simp add: u)
  ultimately have "\<bar>R - (?T / ?S + 100 * ?L / ?T)\<bar> \<le> 1 / 2 ^ 20"
    by (simp add: q1_def q2_def)
  moreover have "fpValue (lixExpression totalWords longWords sentences) = R"
    by (simp add: lixExpression_def R_def Afp_def Cfp_def Bfp_def)
  ultimately show ?thesis by simp
qed


text \<open>
  C6, as the code has it: \<open>calculateLIX\<close> is 0 unless there are words and sentences, and
  no division is evaluated then; otherwise it is the ceiling of the value that the
  formula has in double precision. For counts in the range of a 32-bit \<open>int\<close>, with no
  more long words than words, that value is within \<open>1 / 2 ^ 20\<close> of the exact value of
  the formula, so the result is within 1 of the ceiling of the exact value; below
  \<open>2 ^ 30\<close> words the result is in the range of \<open>int\<close>.
\<close>

theorem calculateLIX_accuracy:
  "(totalWords \<le> 0 \<or> sentences \<le> 0 \<longrightarrow> calculateLIX totalWords longWords sentences = 0) \<and>
   (0 < totalWords \<and> 0 < sentences \<longrightarrow>
      calculateLIX totalWords longWords sentences =
        \<lceil>fpValue (lixExpression totalWords longWords sentences)\<rceil>) \<and>
   (0 < totalWords \<and> totalWords < 2 ^ 30 \<and> 0 < sentences \<and> sentences < 2 ^ 31 \<and>
    0 \<le> longWords \<and> longWords \<le> totalWords \<longrightarrow>
      \<bar>fpValue (lixExpression totalWords longWords sentences) -
        (real_of_int totalWords / real_of_int sentences +
         100 * real_of_int longWords / real_of_int totalWords)\<bar> \<le> 1 / 2 ^ 20 \<and>
      \<bar>calculateLIX totalWords longWords sentences -
        \<lceil>real_of_int totalWords / real_of_int sentences +
         100 * real_of_int longWords / real_of_int totalWords\<rceil>\<bar> \<le> 1 \<and>
      0 \<le> calculateLIX totalWords longWords sentences \<and>
      calculateLIX totalWords longWords sentences < 2 ^ 31)"
proof (intro conjI impI)
  show "calculateLIX totalWords longWords sentences = 0"
    if "totalWords \<le> 0 \<or> sentences \<le> 0"
    using that by (auto simp: calculateLIX_def)
  show "calculateLIX totalWords longWords sentences =
      \<lceil>fpValue (lixExpression totalWords longWords sentences)\<rceil>"
    if "0 < totalWords \<and> 0 < sentences"
    using that by (simp add: calculateLIX_def qCeil_ceiling)
  assume a: "0 < totalWords \<and> totalWords < 2 ^ 30 \<and> 0 < sentences \<and> sentences < 2 ^ 31 \<and>
    0 \<le> longWords \<and> longWords \<le> totalWords"
  let ?x = "real_of_int totalWords / real_of_int sentences +
         100 * real_of_int longWords / real_of_int totalWords"
  let ?R = "fpValue (lixExpression totalWords longWords sentences)"
  have lix: "calculateLIX totalWords longWords sentences = \<lceil>?R\<rceil>"
    using a by (simp add: calculateLIX_def qCeil_ceiling)
  from a have "totalWords < 2 ^ 31" by simp
  with a lixExpression_error [of totalWords sentences longWords]
  show e: "\<bar>?R - ?x\<bar> \<le> 1 / 2 ^ 20"
    by simp
  then have e1: "\<bar>?R - ?x\<bar> \<le> 1" by simp
  from ceiling_close [OF this]
  show "\<bar>calculateLIX totalWords longWords sentences - \<lceil>?x\<rceil>\<bar> \<le> 1"
    unfolding lix .
  have T: "1 \<le> real_of_int totalWords" "real_of_int totalWords \<le> 1073741824"
    and S: "1 \<le> real_of_int sentences"
    and L: "0 \<le> real_of_int longWords" "real_of_int longWords \<le> real_of_int totalWords"
    using a by simp_all
  define q1 where "q1 = real_of_int totalWords / real_of_int sentences"
  define q2 where "q2 = real_of_int longWords / real_of_int totalWords"
  have xq: "?x = q1 + 100 * q2" by (simp add: q1_def q2_def)
  have "real_of_int totalWords / real_of_int sentences \<le> real_of_int totalWords / 1"
    using T S by (intro divide_left_mono) simp_all
  then have "q1 \<le> real_of_int totalWords" by (simp add: q1_def)
  moreover have "0 \<le> q1" using T S by (simp add: q1_def)
  moreover have "0 \<le> q2" "q2 \<le> 1" using T L by (simp_all add: q2_def)
  ultimately have x: "0 \<le> q1 + 100 * q2" "q1 + 100 * q2 \<le> 1073741924"
    using T by linarith+
  from e1 have e2: "\<bar>?R - (q1 + 100 * q2)\<bar> \<le> 1" unfolding xq .
  from e have e3: "\<bar>?R - (q1 + 100 * q2)\<bar> \<le> 1 / 2 ^ 20" unfolding xq .
  have small: "(1::real) / 2 ^ 20 < 1" by simp
  from x e2 have hi: "?R \<le> 1073741925" by linarith
  from x e3 small have lo: "- 1 < ?R" by linarith
  from ceiling_mono [OF hi] have r: "\<lceil>?R\<rceil> \<le> 1073741925" by simp
  from lo have "0 \<le> \<lceil>?R\<rceil>" by linarith
  then show "0 \<le> calculateLIX totalWords longWords sentences" unfolding lix .
  from r show "calculateLIX totalWords longWords sentences < 2 ^ 31" unfolding lix by simp
qed

theorem calculateLIX_accuracy_witness:
  "calculateLIX 0 7 25 = 0 \<and> calculateLIX 25 7 0 = 0 \<and>
   (0::int) < 25 \<and> (25::int) < 2 ^ 30 \<and> (0::int) \<le> 7 \<and> (7::int) \<le> 25 \<and>
   calculateLIX 25 7 25 = 30 \<and>
   \<bar>calculateLIX 25 7 25 - \<lceil>(25::real) / 25 + 100 * 7 / 25\<rceil>\<bar> \<le> 1 \<and>
   calculateLIX 100 20 5 = 40 \<and> \<lceil>(100::real) / 5 + 100 * 20 / 100\<rceil> = 40"
proof -
  note t = calculateLIX_accuracy [of 0 25 7] calculateLIX_accuracy [of 25 0 7]
    calculateLIX_accuracy [of 25 25 7]
  have "calculateLIX 25 7 25 = 30" "calculateLIX 100 20 5 = 40"
    by (simp_all add: calculateLIX_def lixExpression_def fp_eval)
  with t show ?thesis by simp
qed

end
